theory Spec2Isabelle
  imports Main
begin

section \<open>Go values: runes, strings and run-time panics\<close>

text \<open>
  A Go \<open>rune\<close> is a signed 32-bit integer; the code only compares runes and never does
  arithmetic on them, so they are integers here. A Go \<open>string\<close> is a sequence of bytes,
  which is what \<open>string\<close> (a list of 8-bit \<open>char\<close>) is: \<open>len(s)\<close> is \<open>length s\<close> and
  \<open>s[i:]\<close> is \<open>drop i s\<close>, both counted in bytes. Positions and lengths are Go \<open>int\<close>s
  (64 bits); no computation in the modelled code comes near the bound, so they are
  unbounded integers. An index or slice expression out of range, and a method that
  writes through a nil pointer, stop the program with a run-time panic: every modelled
  function that can reach one returns \<open>Inl\<close> of the panic.
\<close>

type_synonym rune = int

datatype error = IndexOutOfRange | SliceBoundsOutOfRange | NilDereference

subsection \<open>The conversions between strings and rune slices\<close>

text \<open>
  \<open>string(r)\<close> and \<open>string(runes)\<close> encode in UTF-8, with \<open>U+FFFD\<close> for a value that is
  not a Unicode scalar value; \<open>[]rune(s)\<close> and \<open>for _, r := range s\<close> decode with
  \<open>utf8.DecodeRune\<close>, which yields \<open>U+FFFD\<close> and advances one byte at an invalid
  sequence.
\<close>

definition RuneError :: rune where
  "RuneError = 65533"

definition valid_rune :: "rune \<Rightarrow> bool" where
  "valid_rune r \<longleftrightarrow> 0 \<le> r \<and> r \<le> 1114111 \<and> \<not> (55296 \<le> r \<and> r \<le> 57343)"

definition byte :: "int \<Rightarrow> char" where
  "byte n = char_of n"

definition EncodeRune :: "rune \<Rightarrow> string" where
  "EncodeRune r =
     (if 0 \<le> r \<and> r \<le> 127 then [byte r]
      else if 0 \<le> r \<and> r \<le> 2047 then [byte (192 + r div 64), byte (128 + r mod 64)]
      else if \<not> valid_rune r then [byte 239, byte 191, byte 189]
      else if r \<le> 65535 then
        [byte (224 + r div 4096), byte (128 + (r div 64) mod 64), byte (128 + r mod 64)]
      else
        [byte (240 + r div 262144), byte (128 + (r div 4096) mod 64),
         byte (128 + (r div 64) mod 64), byte (128 + r mod 64)])"

definition string_of_runes :: "rune list \<Rightarrow> string" where
  "string_of_runes rs = concat (map EncodeRune rs)"

definition first_size :: "int \<Rightarrow> nat" where
  "first_size p0 =
     (if p0 < 128 then 1 else if p0 < 194 \<or> 244 < p0 then 0
      else if p0 < 224 then 2 else if p0 < 240 then 3 else 4)"

definition accept_lo :: "int \<Rightarrow> int" where
  "accept_lo p0 = (if p0 = 224 then 160 else if p0 = 240 then 144 else 128)"

definition accept_hi :: "int \<Rightarrow> int" where
  "accept_hi p0 = (if p0 = 237 then 159 else if p0 = 244 then 143 else 191)"

definition DecodeRune_multi :: "int \<Rightarrow> nat \<Rightarrow> string \<Rightarrow> rune \<times> nat" where
  "DecodeRune_multi p0 sz p =
     (if length p + 1 < sz then (RuneError, 1)
      else
        let b1 = (of_char (p ! 0) :: int) in
        if b1 < accept_lo p0 \<or> accept_hi p0 < b1 then (RuneError, 1)
        else if sz \<le> 2 then ((p0 mod 32) * 64 + b1 mod 64, 2)
        else
          let b2 = (of_char (p ! 1) :: int) in
          if b2 < 128 \<or> 191 < b2 then (RuneError, 1)
          else if sz \<le> 3 then ((p0 mod 16) * 4096 + (b1 mod 64) * 64 + b2 mod 64, 3)
          else
            let b3 = (of_char (p ! 2) :: int) in
            if b3 < 128 \<or> 191 < b3 then (RuneError, 1)
            else ((p0 mod 8) * 262144 + (b1 mod 64) * 4096 + (b2 mod 64) * 64
                  + b3 mod 64, 4))"

fun DecodeRune :: "string \<Rightarrow> rune \<times> nat" where
  "DecodeRune [] = (RuneError, 0)"
| "DecodeRune (c0 # p) =
     (let p0 = (of_char c0 :: int); sz = first_size p0 in
      if sz = 1 then (p0, 1)
      else if sz = 0 then (RuneError, 1)
      else DecodeRune_multi p0 sz p)"

text \<open>
  \<open>[]rune(s)\<close>: decode one rune, skip its bytes, repeat. The first byte is dropped by the
  pattern and the remaining \<open>size - 1\<close> bytes by \<open>drop\<close>.
\<close>

fun runes_of_string :: "string \<Rightarrow> rune list" where
  "runes_of_string [] = []"
| "runes_of_string (c # cs) =
     fst (DecodeRune (c # cs)) # runes_of_string (drop (snd (DecodeRune (c # cs)) - 1) cs)"

text \<open>\<open>unicode.IsSpace\<close>: the Latin-1 switch, then the \<open>White_Space\<close> table.\<close>

definition IsSpace :: "rune \<Rightarrow> bool" where
  "IsSpace r =
     (if 0 \<le> r \<and> r \<le> 255 then r \<in> {9, 10, 11, 12, 13, 32, 133, 160}
      else r = 5760 \<or> (8192 \<le> r \<and> r \<le> 8202) \<or> r = 8232 \<or> r = 8233
           \<or> r = 8239 \<or> r = 8287 \<or> r = 12288)"

section \<open>The tokenisers (tokenise.go)\<close>

definition isPunctuation :: "rune \<Rightarrow> bool" where
  "isPunctuation r \<longleftrightarrow>
     (r \<ge> 33 \<and> 47 \<ge> r) \<or> (r \<ge> 58 \<and> 64 \<ge> r) \<or> (r \<ge> 91 \<and> 94 \<ge> r) \<or> r = 96
     \<or> (r \<ge> 123 \<and> 126 \<ge> r)"

text \<open>\<open>split[len(split)-1] += s\<close>; the index expression panics on an empty slice.\<close>

definition append_to_last :: "string list \<Rightarrow> string \<Rightarrow> error + string list" where
  "append_to_last split s =
     (if split = [] then Inl IndexOutOfRange else Inr (butlast split @ [last split @ s]))"

text \<open>
  \<open>if i == linePos { index = len(split) - 1; pos = len(split[index]) - 1 }\<close>, the same in
  both tokenisers.
\<close>

definition mark_cursor ::
  "int \<Rightarrow> nat \<Rightarrow> string list \<Rightarrow> int \<Rightarrow> int \<Rightarrow> error + (int \<times> int)" where
  "mark_cursor linePos i split index pos =
     (if int i = linePos then
        (if split = [] then Inl IndexOutOfRange
         else Inr (int (length split) - 1, int (length (split ! (length split - 1))) - 1))
      else Inr (index, pos))"

text \<open>
  One iteration of \<open>for i, r := range line\<close> in \<open>tokeniseLine\<close>, on the loop variables
  \<open>(split, punc, index, pos)\<close>. \<open>line[i-1]\<close> is read only when \<open>i > 0\<close>, and \<open>i\<close> ranges over
  the indices of \<open>line\<close>.
\<close>

fun tokeniseLine_step ::
  "rune list \<Rightarrow> int \<Rightarrow> nat \<Rightarrow> rune \<Rightarrow> string list \<times> bool \<times> int \<times> int
   \<Rightarrow> error + (string list \<times> bool \<times> int \<times> int)" where
  "tokeniseLine_step line linePos i r (split, punc, index, pos) =
     (let grown =
        (if isPunctuation r then
           (if i > 0 \<and> line ! (i - 1) \<noteq> r then split @ [''''] else split)
         else if r = 32 \<or> r = 9 \<or> r = 10 then split
         else if punc then split @ [''''] else split);
          punc' = (isPunctuation r \<or> r = 32 \<or> r = 9 \<or> r = 10)
      in case append_to_last grown (EncodeRune r) of
           Inl e \<Rightarrow> Inl e
         | Inr split' \<Rightarrow>
             (case mark_cursor linePos i split' index pos of
                Inl e \<Rightarrow> Inl e
              | Inr (index', pos') \<Rightarrow> Inr (split', punc', index', pos')))"

fun tokeniseLine_loop ::
  "rune list \<Rightarrow> int \<Rightarrow> nat \<Rightarrow> rune list \<Rightarrow> string list \<times> bool \<times> int \<times> int
   \<Rightarrow> error + (string list \<times> bool \<times> int \<times> int)" where
  "tokeniseLine_loop line linePos i [] st = Inr st"
| "tokeniseLine_loop line linePos i (r # rs) st =
     (case tokeniseLine_step line linePos i r st of
        Inl e \<Rightarrow> Inl e
      | Inr st' \<Rightarrow> tokeniseLine_loop line linePos (Suc i) rs st')"

text \<open>
  The adjustment after the loop, \<open>if linePos == len(line) { index = len(split) - 1;
  pos = len(split[index]) }\<close>, and the returned triple.
\<close>

definition tokenise_finish ::
  "rune list \<Rightarrow> int \<Rightarrow> string list \<Rightarrow> int \<Rightarrow> int \<Rightarrow> error + (string list \<times> int \<times> int)" where
  "tokenise_finish line linePos split index pos =
     (if linePos = int (length line) then
        (if split = [] then Inl IndexOutOfRange
         else Inr (split, int (length split) - 1, int (length (split ! (length split - 1)))))
      else Inr (split, index, pos))"

definition tokeniseLine :: "rune list \<Rightarrow> int \<Rightarrow> error + (string list \<times> int \<times> int)" where
  "tokeniseLine line linePos =
     (if length line = 0 then Inr ([], 0, 0)
      else case tokeniseLine_loop line linePos 0 line ([''''], False, 0, 0) of
             Inl e \<Rightarrow> Inl e
           | Inr (split, punc, index, pos) \<Rightarrow> tokenise_finish line linePos split index pos)"

fun tokeniseSplitSpaces_step ::
  "rune list \<Rightarrow> int \<Rightarrow> nat \<Rightarrow> rune \<Rightarrow> string list \<times> int \<times> int
   \<Rightarrow> error + (string list \<times> int \<times> int)" where
  "tokeniseSplitSpaces_step line linePos i r (split, index, pos) =
     (let grown =
        (if r = 32 \<or> r = 9 \<or> r = 10 then split
         else if i > 0 \<and> (line ! (i - 1) = 32 \<or> line ! (i - 1) = 9 \<or> line ! (i - 1) = 10)
           then split @ [''''] else split)
      in case append_to_last grown (EncodeRune r) of
           Inl e \<Rightarrow> Inl e
         | Inr split' \<Rightarrow>
             (case mark_cursor linePos i split' index pos of
                Inl e \<Rightarrow> Inl e
              | Inr (index', pos') \<Rightarrow> Inr (split', index', pos')))"

fun tokeniseSplitSpaces_loop ::
  "rune list \<Rightarrow> int \<Rightarrow> nat \<Rightarrow> rune list \<Rightarrow> string list \<times> int \<times> int
   \<Rightarrow> error + (string list \<times> int \<times> int)" where
  "tokeniseSplitSpaces_loop line linePos i [] st = Inr st"
| "tokeniseSplitSpaces_loop line linePos i (r # rs) st =
     (case tokeniseSplitSpaces_step line linePos i r st of
        Inl e \<Rightarrow> Inl e
      | Inr st' \<Rightarrow> tokeniseSplitSpaces_loop line linePos (Suc i) rs st')"

definition tokeniseSplitSpaces ::
  "rune list \<Rightarrow> int \<Rightarrow> error + (string list \<times> int \<times> int)" where
  "tokeniseSplitSpaces line linePos =
     (if length line = 0 then Inr ([], 0, 0)
      else case tokeniseSplitSpaces_loop line linePos 0 line ([''''], 0, 0) of
             Inl e \<Rightarrow> Inl e
           | Inr (split, index, pos) \<Rightarrow> tokenise_finish line linePos split index pos)"

text \<open>
  What a caller may rely on in a returned triple: the segments concatenate to the line
  (as the string \<open>string(line)\<close>), \<open>index\<close> addresses a segment and \<open>pos\<close> a byte position
  inside it or just after it.
\<close>

definition well_tokenised :: "rune list \<Rightarrow> string list \<times> int \<times> int \<Rightarrow> bool" where
  "well_tokenised line res =
     (case res of (split, index, pos) \<Rightarrow>
        concat split = string_of_runes line \<and> 0 \<le> index \<and> index < int (length split)
        \<and> 0 \<le> pos \<and> pos \<le> int (length (split ! nat index)))"

text \<open>
  The loop invariant: there is a segment, and \<open>(index, pos)\<close> addresses a byte position of
  one. Segments only grow and are only added at the end, so a marked position stays
  valid.
\<close>

definition tok_inv :: "string list \<Rightarrow> int \<Rightarrow> int \<Rightarrow> bool" where
  "tok_inv split index pos \<longleftrightarrow>
     split \<noteq> [] \<and> 0 \<le> index \<and> index < int (length split)
     \<and> 0 \<le> pos \<and> pos \<le> int (length (split ! nat index))"

section \<open>The line and its cursor (package core)\<close>

text \<open>
  \<open>core.Line\<close> is a slice of runes (the engine indexes it, \<open>(*e.line)[i]\<close>, and converts
  it, \<open>string(*e.line)\<close>), so its methods can change nothing but the runes; a
  \<open>core.Cursor\<close> is a position on one line, \<open>core.NewCursor(line)\<close>. The bodies of their
  methods are not part of the sources verified here. Each is modelled below from the
  buffer contract of the specification: positions outside \<open>0 \<le> x \<le> length\<close> are clamped,
  never propagated.
\<close>

text \<open>Modelled from the spec: \<open>Line.Len()\<close>, missing: the number of runes of the
  line.\<close>

definition Line_Len :: "rune list \<Rightarrow> int" where
  "Line_Len l = int (length l)"

text \<open>Modelled from the spec: the clamping of a position into \<open>0 \<le> x \<le> length\<close>
  that the missing methods of \<open>core.Line\<close> apply to their arguments.\<close>

definition clamp_pos :: "rune list \<Rightarrow> int \<Rightarrow> nat" where
  "clamp_pos l p = nat (max 0 (min p (int (length l))))"

text \<open>Modelled from the spec: \<open>Line.Insert(pos, runes...)\<close>, the missing insert-at
  operation: the runes are put before position \<open>pos\<close>.\<close>

definition Line_Insert :: "rune list \<Rightarrow> int \<Rightarrow> rune list \<Rightarrow> rune list" where
  "Line_Insert l p rs = take (clamp_pos l p) l @ rs @ drop (clamp_pos l p) l"

text \<open>Modelled from the spec: \<open>Line.Cut(bpos, epos)\<close>, the missing cut-range operation:
  the runes of \<open>[bpos, epos)\<close> are removed.\<close>

definition Line_Cut :: "rune list \<Rightarrow> int \<Rightarrow> int \<Rightarrow> rune list" where
  "Line_Cut l bpos epos =
     (if clamp_pos l bpos < clamp_pos l epos
      then take (clamp_pos l bpos) l @ drop (clamp_pos l epos) l else l)"

text \<open>Modelled from the spec: \<open>Line.CutRune(pos)\<close>, missing; the comment in \<open>TrimSuffix\<close>
  says it deletes the rune under \<open>pos\<close> unless \<open>pos\<close> is the very end of the line, where
  it deletes the rune before.\<close>

definition Line_CutRune :: "rune list \<Rightarrow> int \<Rightarrow> rune list" where
  "Line_CutRune l p =
     (if 0 \<le> p \<and> p < int (length l) then take (nat p) l @ drop (Suc (nat p)) l
      else if p = int (length l) then butlast l
      else l)"

text \<open>Modelled from the spec: \<open>Line.Set(runes...)\<close>, the missing replace-all
  operation.\<close>

definition Line_Set :: "rune list \<Rightarrow> rune list \<Rightarrow> rune list" where
  "Line_Set l rs = rs"

text \<open>Modelled from the spec: \<open>Cursor.Set(pos)\<close>, missing: the position is clamped into
  the cursor's line, which keeps the invariant \<open>0 \<le> cursor \<le> length\<close>.\<close>

definition Cursor_Set :: "rune list \<Rightarrow> int \<Rightarrow> int" where
  "Cursor_Set l p = max 0 (min p (int (length l)))"

text \<open>Modelled from the spec: \<open>Cursor.Dec()\<close>, missing: one position back, not below
  zero.\<close>

definition Cursor_Dec :: "int \<Rightarrow> int" where
  "Cursor_Dec p = (if 0 < p then p - 1 else p)"

text \<open>Modelled from the spec: \<open>Cursor.InsertAt(runes...)\<close>, missing: the runes are
  inserted into the cursor's line at the cursor, which advances by their number. The
  result is the new line and the new position.\<close>

definition Cursor_InsertAt :: "rune list \<Rightarrow> int \<Rightarrow> rune list \<Rightarrow> rune list \<times> int" where
  "Cursor_InsertAt l p rs = (Line_Insert l p rs, p + int (length rs))"

section \<open>The completion engine (package completion)\<close>

text \<open>
  The struct declarations of the package are missing; the records below hold the fields
  that the functions read and write.
\<close>

text \<open>Modelled from the spec: the struct \<open>Candidate\<close>, missing: a value, a display text
  and a description. The functions read \<open>Value\<close> only.\<close>

record Candidate =
  Value :: string
  Display :: string
  Description :: string

definition Candidate_zero :: Candidate where
  "Candidate_zero = \<lparr>Value = '''', Display = '''', Description = ''''\<rparr>"

text \<open>Modelled from the spec: the struct \<open>SuffixMatcher\<close>, missing: the separator
  set or wildcard and the recorded position, which the functions read and write as the
  fields \<open>string\<close> and \<open>pos\<close>.\<close>

record SuffixMatcher =
  sm_string :: string
  sm_pos :: int

definition SuffixMatcher_zero :: SuffixMatcher where
  "SuffixMatcher_zero = \<lparr>sm_string = '''', sm_pos = 0\<rparr>"

text \<open>Modelled from the spec: the struct \<open>group\<close>, missing: an ordered sequence of
  candidates. \<open>group_selected\<close> is the candidate that the missing method \<open>selected()\<close>
  returns, \<open>noSpace\<close> the suffix matcher of the group, which \<open>prepareSuffix\<close> reads.\<close>

record group =
  candidates :: "Candidate list"
  group_selected :: Candidate
  noSpace :: SuffixMatcher

text \<open>
  The state of \<open>completion.Engine\<close>. \<open>e.line\<close> and \<open>e.cursor\<close> point to the line and
  cursor of the shell, \<open>e.compLine\<close> and \<open>e.compCursor\<close> to the completed (shadow) line and
  its cursor, which are nil until a candidate is inserted virtually: the state holds
  what the pointers refer to, and a nil pointer is \<open>None\<close>. \<open>currentGroup\<close> is the value
  that the missing method \<open>e.currentGroup()\<close> returns (nil is \<open>None\<close>) and \<open>caller\<close> the keys
  that the missing method \<open>e.keys.Caller()\<close> returns.
\<close>

record Engine =
  line :: "rune list"
  cursor :: int
  selected :: Candidate
  sm :: SuffixMatcher
  caller :: "rune list"
  prefix :: string
  suffix :: string
  inserted :: "rune list"
  compLine :: "rune list option"
  compCursor :: "int option"
  groups :: "group list"
  currentGroup :: "group option"
  autoForce :: bool

text \<open>Modelled from the spec: the constant \<open>inputrc.Space\<close>, missing: the space
  key.\<close>

definition Space :: rune where
  "Space = 32"

text \<open>\<open>strings.HasSuffix\<close>.\<close>

definition HasSuffix :: "string \<Rightarrow> string \<Rightarrow> bool" where
  "HasSuffix s suf \<longleftrightarrow> length suf \<le> length s \<and> drop (length s - length suf) s = suf"

fun notMatcher_loop :: "rune \<Rightarrow> rune list \<Rightarrow> bool" where
  "notMatcher_loop key [] = True"
| "notMatcher_loop key (r # rs) = (if r = key then False else notMatcher_loop key rs)"

definition notMatcher :: "rune \<Rightarrow> string \<Rightarrow> bool" where
  "notMatcher key matchers = notMatcher_loop key (runes_of_string matchers)"

text \<open>Modelled from the spec: \<open>SuffixMatcher.Matches(s)\<close>, missing: the matcher is a set
  of separator characters or the wildcard \<open>*\<close>, and a key matches when the matcher is
  the wildcard or the key is a member of the set.\<close>

definition Matches :: "SuffixMatcher \<Rightarrow> string \<Rightarrow> bool" where
  "Matches m s \<longleftrightarrow>
     sm_string m = ''*'' \<or> s \<in> set (map EncodeRune (runes_of_string (sm_string m)))"

text \<open>
  \<open>prepareSuffix\<close> returns the completion and may record the suffix matcher. The
  condition \<open>len(comp) > 0 && len(comp[prefix:]) <= 1\<close> evaluates the slice expression only
  for a non-empty \<open>comp\<close>; \<open>comp[len(comp)-1]\<close> and \<open>keys[0]\<close> are index expressions.
\<close>

definition prepareSuffix :: "Engine \<Rightarrow> error + (string \<times> Engine)" where
  "prepareSuffix e =
     (case currentGroup e of
        None \<Rightarrow> Inr ('''', e)
      | Some cur \<Rightarrow>
          let comp = Value (selected e); plen = length (prefix e) in
          if length comp > 0 \<and> length comp < plen then Inl SliceBoundsOutOfRange
          else if length comp > 0 \<and> length (drop plen comp) \<le> 1 then Inr (comp, e)
          else if comp = [] then Inl IndexOutOfRange
          else
            (case caller e of
               [] \<Rightarrow> Inl IndexOutOfRange
             | key # _ \<Rightarrow>
                 let suf = (of_char (comp ! (length comp - 1)) :: rune);
                     e' = e\<lparr>sm := (noSpace cur)
                             \<lparr>sm_pos := cursor e + int (length comp) - int plen - 1\<rparr>\<rparr>
                 in if sm_string (noSpace cur) = ''*'' \<and> suf \<noteq> Space \<and> key = Space
                    then Inr (comp, e')
                    else if HasSuffix comp ''/'' \<and> key \<noteq> Space
                            \<and> notMatcher key (sm_string (noSpace cur))
                    then Inr (comp, e')
                    else Inr (comp, e')))"

text \<open>
  The part that \<open>acceptCandidate\<close> and \<open>insertCandidate\<close> share after \<open>prepareSuffix\<close>:
  \<open>e.inserted = []rune(completion[len(e.prefix):])\<close>, a slice expression.
\<close>

definition set_inserted :: "string \<Rightarrow> Engine \<Rightarrow> error + Engine" where
  "set_inserted completion e =
     (if length completion < length (prefix e) then Inl SliceBoundsOutOfRange
      else Inr (e\<lparr>inserted := runes_of_string (drop (length (prefix e)) completion)\<rparr>))"

definition acceptCandidate :: "Engine \<Rightarrow> error + Engine" where
  "acceptCandidate e =
     (case currentGroup e of
        None \<Rightarrow> Inr e
      | Some cur \<Rightarrow>
          (case prepareSuffix (e\<lparr>selected := group_selected cur\<rparr>) of
             Inl err \<Rightarrow> Inl err
           | Inr (completion, e1) \<Rightarrow>
               (case set_inserted completion e1 of
                  Inl err \<Rightarrow> Inl err
                | Inr e2 \<Rightarrow>
                    let l1 = Line_Cut (line e2) (cursor e2)
                               (cursor e2 + int (length (suffix e2)));
                        (l2, c2) = Cursor_InsertAt l1 (cursor e2) (inserted e2);
                        l3 = Line_Insert l2 c2 (runes_of_string (suffix e2))
                    in Inr (e2\<lparr>line := l3, cursor := c2, inserted := [],
                               prefix := '''', suffix := ''''\<rparr>))))"

definition insertCandidate :: "Engine \<Rightarrow> error + Engine" where
  "insertCandidate e =
     (case currentGroup e of
        None \<Rightarrow> Inr e
      | Some grp \<Rightarrow>
          let e0 = e\<lparr>selected := group_selected grp\<rparr> in
          if length (Value (selected e0)) < length (prefix e0) then Inr e0
          else
            (case prepareSuffix e0 of
               Inl err \<Rightarrow> Inl err
             | Inr (completion, e1) \<Rightarrow>
                 (case set_inserted completion e1 of
                    Inl err \<Rightarrow> Inl err
                  | Inr e2 \<Rightarrow>
                      let completed = runes_of_string (string_of_runes (line e2));
                          c0 = Cursor_Set completed (cursor e2);
                          l1 = Line_Cut completed c0 (c0 + int (length (suffix e2)));
                          (l2, c2) = Cursor_InsertAt l1 c0 (inserted e2);
                          l3 = Line_Insert l2 c2 (runes_of_string (suffix e2))
                      in Inr (e2\<lparr>compLine := Some l3, compCursor := Some c2\<rparr>))))"

text \<open>
  \<open>cancelCompletedLine\<close> stores through \<open>e.compLine\<close> and \<open>e.compCursor\<close> without testing
  them; a nil pointer makes the store panic.
\<close>

definition cancelCompletedLine :: "Engine \<Rightarrow> error + Engine" where
  "cancelCompletedLine e =
     (case compLine e of
        None \<Rightarrow> Inl NilDereference
      | Some cl \<Rightarrow>
          (case compCursor e of
             None \<Rightarrow> Inl NilDereference
           | Some cc \<Rightarrow>
               let cl' = Line_Set cl (line e) in
               Inr (e\<lparr>compLine := Some cl', compCursor := Some (Cursor_Set cl' (cursor e)),
                      selected := Candidate_zero\<rparr>)))"

definition TrimSuffix :: "Engine \<Rightarrow> error + Engine" where
  "TrimSuffix e =
     (if Line_Len (line e) = 0 \<or> cursor e = 0 \<or> length (Value (selected e)) > 0 then Inr e
      else if sm_pos (sm e) \<noteq> cursor e - 1 then Inr (e\<lparr>sm := SuffixMatcher_zero\<rparr>)
      else if cursor e - 1 < 0 \<or> Line_Len (line e) \<le> cursor e - 1 then Inl IndexOutOfRange
      else
        let suf = line e ! nat (cursor e - 1) in
        (case caller e of
           [] \<Rightarrow> Inl IndexOutOfRange
         | key # _ \<Rightarrow>
             if suf = 47 \<and> key \<noteq> Space \<and> notMatcher key (sm_string (sm e)) then Inr e
             else if Matches (sm e) (EncodeRune key) \<or> IsSpace key then
               let c' = Cursor_Dec (cursor e) in
               Inr (e\<lparr>cursor := c', line := Line_CutRune (line e) c'\<rparr>)
             else Inr e))"

text \<open>Modelled from the spec: \<open>noCompletions()\<close>, missing: the generation result is
  empty, no group holds a candidate.\<close>

definition noCompletions :: "Engine \<Rightarrow> bool" where
  "noCompletions e \<longleftrightarrow> concat (map candidates (groups e)) = []"

text \<open>Modelled from the spec: \<open>hasUniqueCandidate()\<close>, missing: true iff exactly one
  candidate exists across all groups.\<close>

definition hasUniqueCandidate :: "Engine \<Rightarrow> bool" where
  "hasUniqueCandidate e \<longleftrightarrow> length (concat (map candidates (groups e))) = 1"

text \<open>Modelled from the spec: \<open>ClearMenu(completions)\<close>, missing: with \<open>true\<close> the
  completion list is dropped, so that no menu is left to show; the input line is not
  touched.\<close>

definition ClearMenu :: "bool \<Rightarrow> Engine \<Rightarrow> Engine" where
  "ClearMenu completions e =
     (if completions then e\<lparr>groups := [], currentGroup := None\<rparr> else e)"

text \<open>Modelled from the spec: \<open>ResetForce()\<close>, missing: the force flag of the session
  state is reset.\<close>

definition ResetForce :: "Engine \<Rightarrow> Engine" where
  "ResetForce e = e\<lparr>autoForce := False\<rparr>"

text \<open>Modelled from the spec: \<open>Cancel(inserted, cached)\<close>, missing: the shadow buffer,
  if present, mirrors the real buffer again and the selected candidate is discarded.\<close>

definition Cancel :: "bool \<Rightarrow> bool \<Rightarrow> Engine \<Rightarrow> Engine" where
  "Cancel ins cached e =
     (case compLine e of
        None \<Rightarrow> e\<lparr>selected := Candidate_zero\<rparr>
      | Some cl \<Rightarrow> e\<lparr>compLine := Some (line e),
                     compCursor := Some (Cursor_Set (line e) (cursor e)),
                     selected := Candidate_zero\<rparr>)"

definition refreshLine :: "Engine \<Rightarrow> error + Engine" where
  "refreshLine e =
     (if noCompletions e then Inr (Cancel True True e)
      else if currentGroup e = None then Inr e
      else if hasUniqueCandidate e then
        (case acceptCandidate e of
           Inl err \<Rightarrow> Inl err
         | Inr e1 \<Rightarrow> Inr (ResetForce (ClearMenu True e1)))
      else insertCandidate e)"

section \<open>The display engine (package display)\<close>

text \<open>
  Everything the display engine sends to the terminal or asks a component to print is
  recorded, in order, in a trace. The functions of package term and the printing methods
  of the prompt, the hint and the completer are not available: each call is one entry
  of the trace, with its arguments.
\<close>

datatype term_op =
    HideCursor
  | ShowCursor
  | Println
  | MoveCursorBackwards int
  | MoveCursorForwards int
  | MoveCursorUp int
  | MoveCursorDown int
  | Line_Display "rune list" int
  | Prompt_RightPrint int bool
  | Completer_Autocomplete
  | Hint_Display
  | Completer_Display int

text \<open>
  What the other components answer during one repaint: the line and cursor of the
  completer, the history suggestion, the cursor position query, the prompt width, the
  option \<open>history-autosuggest\<close>, the coordinate functions of \<open>core.Cursor\<close> and
  \<open>core.Line\<close>, the terminal size, the selection highlighter, the colour codes and the
  rows of hint and menu. They are parameters of the model: each answers the same
  throughout one repaint, and nothing else is assumed about them.
\<close>

record collaborators =
  completer_Line :: "rune list \<times> int"
  completer_IsInserting :: bool
  histories_Suggest :: "rune list \<Rightarrow> rune list"
  keys_GetCursorPos :: "int \<times> int"
  prompt_LastUsed :: int
  history_autosuggest :: bool
  Cursor_Coordinates :: "rune list \<Rightarrow> int \<Rightarrow> int \<Rightarrow> int \<times> int"
  Line_Coordinates :: "rune list \<Rightarrow> int \<Rightarrow> int \<times> int"
  term_GetWidth :: int
  term_height :: int
  ui_Highlight :: "rune list \<Rightarrow> string"
  color_FgBlackBright :: string
  color_Reset :: string
  hint_Coordinates :: int
  completer_Coordinates :: int

text \<open>
  The fields of \<open>display.Engine\<close> that hold the highlighter (nil is \<open>None\<close>), the
  geometry and the line; \<open>d_line\<close> and \<open>d_cursor\<close> are what \<open>e.line\<close> and \<open>e.cursor\<close> point
  to, \<open>out\<close> is the trace.
\<close>

record display =
  highlighter :: "(rune list \<Rightarrow> string) option"
  startCols :: int
  startRows :: int
  lineCol :: int
  lineRows :: int
  cursorRow :: int
  cursorCol :: int
  compRows :: int
  d_line :: "rune list"
  suggested :: "rune list"
  d_cursor :: int
  out :: "term_op list"

definition emit :: "term_op \<Rightarrow> display \<Rightarrow> display" where
  "emit x e = e\<lparr>out := out e @ [x]\<rparr>"

definition CursorToLineStart :: "display \<Rightarrow> display" where
  "CursorToLineStart e =
     emit (MoveCursorForwards (startCols e - 1))
       (emit (MoveCursorUp (cursorRow e))
          (emit (MoveCursorBackwards (cursorCol e)) e))"

definition CursorHintToLineStart :: "display \<Rightarrow> display" where
  "CursorHintToLineStart e =
     CursorToLineStart
       (emit (MoveCursorUp (lineRows e - cursorRow e)) (emit (MoveCursorUp 1) e))"

definition LineStartToCursorPos :: "collaborators \<Rightarrow> display \<Rightarrow> display" where
  "LineStartToCursorPos env e =
     emit (MoveCursorForwards (cursorCol e))
       (emit (MoveCursorBackwards (term_GetWidth env))
          (emit (MoveCursorDown (cursorRow e)) e))"

definition computeCoordinates :: "collaborators \<Rightarrow> display \<Rightarrow> display" where
  "computeCoordinates env e =
     (let e1 = e\<lparr>d_line := fst (completer_Line env), d_cursor := snd (completer_Line env)\<rparr>;
          e2 = (if completer_IsInserting env then e1\<lparr>suggested := d_line e1\<rparr>
                else e1\<lparr>suggested := histories_Suggest env (d_line e1)\<rparr>);
          e3 = e2\<lparr>startCols := fst (keys_GetCursorPos env),
                  startRows := snd (keys_GetCursorPos env)\<rparr>;
          e4 = (if startCols e3 = - 1 then e3\<lparr>startCols := prompt_LastUsed env\<rparr> else e3);
          e5 = e4\<lparr>cursorCol := fst (Cursor_Coordinates env (d_line e4) (d_cursor e4)
                                     (startCols e4)),
                  cursorRow := snd (Cursor_Coordinates env (d_line e4) (d_cursor e4)
                                     (startCols e4))\<rparr>
      in if history_autosuggest env
         then e5\<lparr>lineCol := fst (Line_Coordinates env (suggested e5) (startCols e5)),
                 lineRows := snd (Line_Coordinates env (suggested e5) (startCols e5))\<rparr>
         else e5\<lparr>lineCol := fst (Line_Coordinates env (d_line e5) (startCols e5)),
                 lineRows := snd (Line_Coordinates env (d_line e5) (startCols e5))\<rparr>)"

definition displayLine :: "collaborators \<Rightarrow> display \<Rightarrow> display" where
  "displayLine env e =
     (let l0 = (case highlighter e of
                  Some h \<Rightarrow> h (d_line e)
                | None \<Rightarrow> string_of_runes (d_line e));
          l1 = ui_Highlight env (runes_of_string l0);
          l2 = (if int (length (suggested e)) > Line_Len (d_line e) \<and> history_autosuggest env
                then l1 @ color_FgBlackBright env
                        @ string_of_runes (drop (length (d_line e)) (suggested e))
                        @ color_Reset env
                else l1);
          e1 = e\<lparr>suggested := Line_Set (suggested e) (runes_of_string l2)\<rparr>;
          e2 = emit (Line_Display (suggested e1) (startCols e1)) e1
      in if lineCol e2 = 0 \<and> cursorCol e2 = 0 \<and> cursorRow e2 > 1 then emit Println e2
         else e2)"

text \<open>Go's integer division truncates towards zero.\<close>

definition go_div :: "int \<Rightarrow> int \<Rightarrow> int" where
  "go_div a b = sgn a * sgn b * (\<bar>a\<bar> div \<bar>b\<bar>)"

definition displayHelpers :: "collaborators \<Rightarrow> display \<Rightarrow> display" where
  "displayHelpers env e =
     (let e1 = emit Completer_Autocomplete (emit Println e);
          termHeight = term_height env;
          compLines0 = termHeight - startRows e1 - lineRows e1 - hint_Coordinates env - 1;
          compLines = (if compLines0 < go_div termHeight 3 then go_div termHeight 2 - 1
                       else compLines0);
          e2 = emit (Completer_Display compLines) (emit Hint_Display e1);
          e3 = e2\<lparr>compRows := completer_Coordinates env\<rparr>
      in emit (MoveCursorUp (hint_Coordinates env))
           (emit (MoveCursorUp (compRows e3))
              (emit (MoveCursorBackwards (term_GetWidth env)) e3)))"

definition Refresh :: "collaborators \<Rightarrow> display \<Rightarrow> display" where
  "Refresh env e =
     (let e1 = CursorToLineStart (emit HideCursor e);
          e2 = computeCoordinates env e1;
          e3 = emit (MoveCursorForwards (startCols e2))
                 (emit (MoveCursorBackwards (term_GetWidth env)) e2);
          e4 = displayLine env e3;
          e5 = emit (Prompt_RightPrint (lineCol e4) True) e4;
          e6 = displayHelpers env e5;
          e7 = LineStartToCursorPos env (CursorHintToLineStart e6)
      in emit ShowCursor e7)"

text \<open>What follows \<open>computeCoordinates\<close> in \<open>Refresh\<close>: it only extends the trace and keeps
  the cursor geometry and the start column.\<close>

definition Refresh_paint :: "collaborators \<Rightarrow> display \<Rightarrow> display" where
  "Refresh_paint env e2 =
     (let e3 = emit (MoveCursorForwards (startCols e2))
                 (emit (MoveCursorBackwards (term_GetWidth env)) e2);
          e4 = displayLine env e3;
          e5 = emit (Prompt_RightPrint (lineCol e4) True) e4;
          e6 = displayHelpers env e5;
          e7 = LineStartToCursorPos env (CursorHintToLineStart e6)
      in emit ShowCursor e7)"

section \<open>Example states\<close>

text \<open>
  The third scenario of the specification: the line \<open>cd /usr/loc\<close> with the cursor at its
  end, the prefix \<open>loc\<close> and the single candidate \<open>local/\<close> of a group whose separator set
  is \<open>/\<close>; the completion was called with the tab key.
\<close>

definition local_candidate :: Candidate where
  "local_candidate = \<lparr>Value = ''local/'', Display = ''local/'', Description = ''''\<rparr>"

definition local_group :: group where
  "local_group = \<lparr>candidates = [local_candidate], group_selected = local_candidate,
                   noSpace = \<lparr>sm_string = ''/'', sm_pos = 0\<rparr>\<rparr>"

definition local_engine :: Engine where
  "local_engine =
     \<lparr>line = [99, 100, 32, 47, 117, 115, 114, 47, 108, 111, 99], cursor = 11,
      selected = Candidate_zero, sm = SuffixMatcher_zero, caller = [9], prefix = ''loc'',
      suffix = '''', inserted = [], compLine = None, compCursor = None,
      groups = [local_group], currentGroup = Some local_group, autoForce = False\<rparr>"

text \<open>The same line with two candidates, \<open>local/\<close> selected, and a one-letter
  candidate \<open>-l\<close> after the prefix \<open>-\<close>.\<close>

definition lib_candidate :: Candidate where
  "lib_candidate = \<lparr>Value = ''lib/'', Display = ''lib/'', Description = ''''\<rparr>"

definition two_group :: group where
  "two_group = \<lparr>candidates = [local_candidate, lib_candidate],
                 group_selected = local_candidate,
                 noSpace = \<lparr>sm_string = ''/'', sm_pos = 0\<rparr>\<rparr>"

definition two_engine :: Engine where
  "two_engine = local_engine\<lparr>groups := [two_group], currentGroup := Some two_group\<rparr>"

definition flag_candidate :: Candidate where
  "flag_candidate = \<lparr>Value = ''-l'', Display = ''-l'', Description = ''''\<rparr>"

definition flag_group :: group where
  "flag_group = \<lparr>candidates = [flag_candidate], group_selected = flag_candidate,
                  noSpace = SuffixMatcher_zero\<rparr>"

definition flag_engine :: Engine where
  "flag_engine =
     \<lparr>line = [108, 115, 32, 45], cursor = 4, selected = flag_candidate,
      sm = SuffixMatcher_zero, caller = [9], prefix = ''-'', suffix = '''', inserted = [],
      compLine = None, compCursor = None, groups = [flag_group],
      currentGroup = Some flag_group, autoForce = False\<rparr>"

text \<open>
  The state after the candidate \<open>local/\<close> was accepted and the menu left: the line is
  \<open>cd /usr/local/\<close>, the cursor is at its end, no candidate is selected and the matcher
  \<open>/\<close> is recorded at position 13; \<open>key\<close> is the key typed next.
\<close>

definition accepted_engine :: "rune \<Rightarrow> Engine" where
  "accepted_engine key =
     \<lparr>line = [99, 100, 32, 47, 117, 115, 114, 47, 108, 111, 99, 97, 108, 47], cursor = 14,
      selected = Candidate_zero, sm = \<lparr>sm_string = ''/'', sm_pos = 13\<rparr>, caller = [key],
      prefix = '''', suffix = '''', inserted = [], compLine = None, compCursor = None,
      groups = [], currentGroup = None, autoForce = False\<rparr>"

text \<open>
  The state while the candidate \<open>local/\<close> is previewed: the real line is still
  \<open>cd /usr/loc\<close>, the candidate is selected and the matcher is recorded at position 13.
\<close>

definition preview_engine :: Engine where
  "preview_engine =
     local_engine\<lparr>selected := local_candidate, sm := \<lparr>sm_string = ''/'', sm_pos = 13\<rparr>,
                  inserted := [97, 108, 47],
                  compLine := Some [99, 100, 32, 47, 117, 115, 114, 47, 108, 111, 99, 97,
                                    108, 47],
                  compCursor := Some 14\<rparr>"

section \<open>Encoding a rune and decoding it again\<close>

lemma of_char_byte: "(of_char (byte n) :: int) = n mod 256"
  by (simp add: byte_def)

lemma mod_shift: "0 \<le> q \<Longrightarrow> q < n \<Longrightarrow> (k * n + q) mod n = (q::int)"
  by simp

lemma split4096: "(r::int) = (r div 4096) * 4096 + ((r div 64) mod 64) * 64 + r mod 64"
proof -
  define d where "d = r div 64"
  define l where "l = r mod 64"
  define m where "m = d mod 64"
  define q where "q = d div 64"
  have e1: "r = d * 64 + l" unfolding d_def l_def by simp
  have e2: "d = q * 64 + m" unfolding q_def m_def by simp
  have e3: "q = r div 4096" unfolding q_def d_def by (simp add: div_mult2_eq [symmetric])
  have "r = (q * 64 + m) * 64 + l" using e1 e2 by simp
  then have "r = q * 4096 + m * 64 + l" by (simp add: algebra_simps)
  then show ?thesis unfolding e3 m_def l_def d_def .
qed

lemma split262144:
  "(r::int) = (r div 262144) * 262144 + ((r div 4096) mod 64) * 4096
              + ((r div 64) mod 64) * 64 + r mod 64"
proof -
  define d where "d = r div 4096"
  define n where "n = d mod 64"
  define q where "q = d div 64"
  have e1: "r = d * 4096 + ((r div 64) mod 64) * 64 + r mod 64"
    unfolding d_def by (rule split4096)
  have e2: "d = q * 64 + n" unfolding q_def n_def by simp
  have e3: "q = r div 262144" unfolding q_def d_def by (simp add: div_mult2_eq [symmetric])
  have "r = (q * 64 + n) * 4096 + ((r div 64) mod 64) * 64 + r mod 64"
    using e1 e2 by simp
  then have "r = q * 262144 + n * 4096 + ((r div 64) mod 64) * 64 + r mod 64"
    by (simp add: algebra_simps)
  then show ?thesis unfolding e3 n_def d_def .
qed

text \<open>A well-formed sequence of two, three or four bytes decodes to the value it
  carries.\<close>

lemma DecodeRune2:
  assumes c0: "(of_char c0 :: int) = 192 + q" and q: "2 \<le> q" "q \<le> 31"
    and c1: "(of_char c1 :: int) = 128 + m" and m: "0 \<le> m" "m \<le> 63"
  shows "DecodeRune (c0 # c1 # rest) = (q * 64 + m, 2)"
proof -
  have a: "(192 + q) mod 32 = q" using q mod_shift [of q 32 6] by simp
  have b: "(128 + m) mod 64 = m" using m mod_shift [of m 64 2] by simp
  have sz: "first_size (192 + q) = 2" using q by (simp add: first_size_def)
  have lo: "accept_lo (192 + q) = 128" using q by (simp add: accept_lo_def)
  have hi: "accept_hi (192 + q) = 191" using q by (simp add: accept_hi_def)
  have "DecodeRune_multi (192 + q) 2 (c1 # rest) = (q * 64 + m, 2)"
    using m by (simp add: DecodeRune_multi_def c1 lo hi a b)
  then show ?thesis by (simp add: c0 sz)
qed

lemma DecodeRune3:
  assumes c0: "(of_char c0 :: int) = 224 + q" and q: "0 \<le> q" "q \<le> 15"
    and c1: "(of_char c1 :: int) = 128 + m" and m: "0 \<le> m" "m \<le> 63"
    and c2: "(of_char c2 :: int) = 128 + l" and l: "0 \<le> l" "l \<le> 63"
    and q0: "q = 0 \<Longrightarrow> 32 \<le> m" and q13: "q = 13 \<Longrightarrow> m \<le> 31"
  shows "DecodeRune (c0 # c1 # c2 # rest) = (q * 4096 + m * 64 + l, 3)"
proof -
  have a: "(224 + q) mod 16 = q" using q mod_shift [of q 16 14] by simp
  have b: "(128 + m) mod 64 = m" using m mod_shift [of m 64 2] by simp
  have c: "(128 + l) mod 64 = l" using l mod_shift [of l 64 2] by simp
  have sz: "first_size (224 + q) = 3" using q by (simp add: first_size_def)
  have lo: "accept_lo (224 + q) \<le> 128 + m" using q m q0 by (simp add: accept_lo_def)
  have hi: "128 + m \<le> accept_hi (224 + q)" using q m q13 by (simp add: accept_hi_def)
  have "DecodeRune_multi (224 + q) 3 (c1 # c2 # rest) = (q * 4096 + m * 64 + l, 3)"
    using l lo hi by (simp add: DecodeRune_multi_def c1 c2 a b c)
  then show ?thesis by (simp add: c0 sz)
qed

lemma DecodeRune4:
  assumes c0: "(of_char c0 :: int) = 240 + q" and q: "0 \<le> q" "q \<le> 4"
    and c1: "(of_char c1 :: int) = 128 + n" and n: "0 \<le> n" "n \<le> 63"
    and c2: "(of_char c2 :: int) = 128 + m" and m: "0 \<le> m" "m \<le> 63"
    and c3: "(of_char c3 :: int) = 128 + l" and l: "0 \<le> l" "l \<le> 63"
    and q0: "q = 0 \<Longrightarrow> 16 \<le> n" and q4: "q = 4 \<Longrightarrow> n \<le> 15"
  shows "DecodeRune (c0 # c1 # c2 # c3 # rest) = (q * 262144 + n * 4096 + m * 64 + l, 4)"
proof -
  have a: "(240 + q) mod 8 = q" using q mod_shift [of q 8 30] by simp
  have b: "(128 + n) mod 64 = n" using n mod_shift [of n 64 2] by simp
  have c: "(128 + m) mod 64 = m" using m mod_shift [of m 64 2] by simp
  have d: "(128 + l) mod 64 = l" using l mod_shift [of l 64 2] by simp
  have sz: "first_size (240 + q) = 4" using q by (simp add: first_size_def)
  have lo: "accept_lo (240 + q) \<le> 128 + n" using q n q0 by (simp add: accept_lo_def)
  have hi: "128 + n \<le> accept_hi (240 + q)" using q n q4 by (simp add: accept_hi_def)
  have "DecodeRune_multi (240 + q) 4 (c1 # c2 # c3 # rest)
        = (q * 262144 + n * 4096 + m * 64 + l, 4)"
    using l m lo hi by (simp add: DecodeRune_multi_def c1 c2 c3 a b c d)
  then show ?thesis by (simp add: c0 sz)
qed

lemma Decode_Encode_1:
  assumes "0 \<le> r" "r \<le> 127"
  shows "DecodeRune (EncodeRune r @ rest) = (r, 1)"
  using assms by (simp add: EncodeRune_def of_char_byte first_size_def)

lemma Decode_Encode_2:
  assumes "128 \<le> r" "r \<le> 2047"
  shows "DecodeRune (EncodeRune r @ rest) = (r, 2)"
proof -
  define q where "q = r div 64"
  define m where "m = r mod 64"
  have r: "r = q * 64 + m" unfolding q_def m_def by simp
  have m: "0 \<le> m" "m \<le> 63" unfolding m_def by simp_all
  have q: "2 \<le> q" "q \<le> 31" using assms r m by linarith+
  have enc: "EncodeRune r = [byte (192 + q), byte (128 + m)]"
    using assms unfolding EncodeRune_def q_def m_def by simp
  have c0: "(of_char (byte (192 + q)) :: int) = 192 + q" using q by (simp add: of_char_byte)
  have c1: "(of_char (byte (128 + m)) :: int) = 128 + m" using m by (simp add: of_char_byte)
  show ?thesis unfolding enc using DecodeRune2 [OF c0 q c1 m, of rest] r by simp
qed

lemma Decode_Encode_3:
  assumes "2048 \<le> r" "r \<le> 65535" "valid_rune r"
  shows "DecodeRune (EncodeRune r @ rest) = (r, 3)"
proof -
  define q where "q = r div 4096"
  define m where "m = (r div 64) mod 64"
  define l where "l = r mod 64"
  have r: "r = q * 4096 + m * 64 + l" unfolding q_def m_def l_def by (rule split4096)
  have m: "0 \<le> m" "m \<le> 63" unfolding m_def by simp_all
  have l: "0 \<le> l" "l \<le> 63" unfolding l_def by simp_all
  have q: "0 \<le> q" "q \<le> 15" using assms r m l by linarith+
  have q0: "q = 0 \<Longrightarrow> 32 \<le> m" using assms r l by linarith
  have q13: "q = 13 \<Longrightarrow> m \<le> 31"
    using assms r l m unfolding valid_rune_def by linarith
  have enc: "EncodeRune r = [byte (224 + q), byte (128 + m), byte (128 + l)]"
    using assms unfolding EncodeRune_def q_def m_def l_def by simp
  have c0: "(of_char (byte (224 + q)) :: int) = 224 + q" using q by (simp add: of_char_byte)
  have c1: "(of_char (byte (128 + m)) :: int) = 128 + m" using m by (simp add: of_char_byte)
  have c2: "(of_char (byte (128 + l)) :: int) = 128 + l" using l by (simp add: of_char_byte)
  show ?thesis unfolding enc using DecodeRune3 [OF c0 q c1 m c2 l q0 q13, of rest] r by simp
qed

lemma Decode_Encode_4:
  assumes "65536 \<le> r" "r \<le> 1114111"
  shows "DecodeRune (EncodeRune r @ rest) = (r, 4)"
proof -
  define q where "q = r div 262144"
  define n where "n = (r div 4096) mod 64"
  define m where "m = (r div 64) mod 64"
  define l where "l = r mod 64"
  have r: "r = q * 262144 + n * 4096 + m * 64 + l"
    unfolding q_def n_def m_def l_def by (rule split262144)
  have n: "0 \<le> n" "n \<le> 63" unfolding n_def by simp_all
  have m: "0 \<le> m" "m \<le> 63" unfolding m_def by simp_all
  have l: "0 \<le> l" "l \<le> 63" unfolding l_def by simp_all
  have q: "0 \<le> q" "q \<le> 4" using assms r n m l by linarith+
  have q0: "q = 0 \<Longrightarrow> 16 \<le> n" using assms r l m by linarith
  have q4: "q = 4 \<Longrightarrow> n \<le> 15" using assms r l m n by linarith
  have v: "valid_rune r" using assms unfolding valid_rune_def by simp
  have enc: "EncodeRune r = [byte (240 + q), byte (128 + n), byte (128 + m), byte (128 + l)]"
    using assms v unfolding EncodeRune_def q_def n_def m_def l_def by simp
  have c0: "(of_char (byte (240 + q)) :: int) = 240 + q" using q by (simp add: of_char_byte)
  have c1: "(of_char (byte (128 + n)) :: int) = 128 + n" using n by (simp add: of_char_byte)
  have c2: "(of_char (byte (128 + m)) :: int) = 128 + m" using m by (simp add: of_char_byte)
  have c3: "(of_char (byte (128 + l)) :: int) = 128 + l" using l by (simp add: of_char_byte)
  show ?thesis
    unfolding enc using DecodeRune4 [OF c0 q c1 n c2 m c3 l q0 q4, of rest] r by simp
qed

lemma Decode_Encode_valid:
  assumes "valid_rune r"
  shows "DecodeRune (EncodeRune r @ rest) = (r, length (EncodeRune r))"
proof -
  have r0: "0 \<le> r" and rmax: "r \<le> 1114111" using assms unfolding valid_rune_def by simp_all
  consider "r \<le> 127" | "128 \<le> r" "r \<le> 2047" | "2048 \<le> r" "r \<le> 65535" | "65536 \<le> r"
    by linarith
  then show ?thesis
  proof cases
    case 1
    then show ?thesis using r0 Decode_Encode_1 [of r rest] by (simp add: EncodeRune_def)
  next
    case 2
    then show ?thesis using Decode_Encode_2 [of r rest] by (simp add: EncodeRune_def)
  next
    case 3
    then show ?thesis using assms Decode_Encode_3 [of r rest] by (simp add: EncodeRune_def)
  next
    case 4
    then show ?thesis using assms rmax Decode_Encode_4 [of r rest]
      by (simp add: EncodeRune_def)
  qed
qed

lemma EncodeRune_not_Nil: "EncodeRune r \<noteq> []"
  by (simp add: EncodeRune_def)

text \<open>\<open>[]rune(string(l))\<close> is \<open>l\<close> when \<open>l\<close> holds Unicode scalar values.\<close>

lemma runes_of_string_of_runes:
  "\<forall>r\<in>set rs. valid_rune r \<Longrightarrow> runes_of_string (string_of_runes rs) = rs"
proof (induction rs)
  case Nil
  then show ?case by (simp add: string_of_runes_def)
next
  case (Cons r rs)
  have v: "valid_rune r" using Cons.prems by simp
  obtain b bs where enc: "EncodeRune r = b # bs"
    using EncodeRune_not_Nil [of r] by (cases "EncodeRune r") auto
  have d: "DecodeRune (b # bs @ string_of_runes rs) = (r, Suc (length bs))"
    using Decode_Encode_valid [OF v, of "string_of_runes rs"] enc by simp
  have "runes_of_string (string_of_runes (r # rs))
        = runes_of_string (b # bs @ string_of_runes rs)"
    by (simp add: string_of_runes_def enc)
  also have "\<dots> = r # runes_of_string (string_of_runes rs)"
    by (simp add: d del: DecodeRune.simps)
  finally show ?case using Cons by simp
qed

section \<open>The tokenisers keep the line and address a segment\<close>

lemma append_to_last_Inr:
  assumes "split \<noteq> []"
  shows "append_to_last split s = Inr (butlast split @ [last split @ s])"
  using assms by (simp add: append_to_last_def)

lemma concat_append_to_last:
  assumes "split \<noteq> []"
  shows "concat (butlast split @ [last split @ s]) = concat split @ s"
proof -
  have "concat split = concat (butlast split @ [last split])" using assms by simp
  then show ?thesis by simp
qed

lemma nth_append_to_last:
  assumes "split \<noteq> []" "n < length split"
  shows "length (split ! n) \<le> length ((butlast split @ [last split @ s]) ! n)"
proof (cases "n < length split - 1")
  case True
  then show ?thesis by (simp add: nth_append nth_butlast)
next
  case False
  then have n: "n = length split - 1" using assms by simp
  then have "split ! n = last split" using assms by (simp add: last_conv_nth)
  moreover have "(butlast split @ [last split @ s]) ! n = last split @ s"
    using n by (simp add: nth_append)
  ultimately show ?thesis by simp
qed

lemma tok_inv_grow:
  assumes "tok_inv split index pos"
  shows "tok_inv (split @ ['''']) index pos"
  using assms by (auto simp: tok_inv_def nth_append)

lemma tok_inv_append_to_last:
  assumes "tok_inv split index pos"
  shows "tok_inv (butlast split @ [last split @ s]) index pos"
proof -
  have ne: "split \<noteq> []" and i: "nat index < length split"
    using assms by (auto simp: tok_inv_def)
  have "length (split ! nat index) \<le> length ((butlast split @ [last split @ s]) ! nat index)"
    using nth_append_to_last [OF ne i] .
  then show ?thesis using assms by (auto simp: tok_inv_def)
qed

lemma mark_cursor_inv:
  assumes ne: "split \<noteq> []" and l: "last split \<noteq> []" and inv: "tok_inv split index pos"
  shows "\<exists>index' pos'. mark_cursor linePos i split index pos = Inr (index', pos')
           \<and> tok_inv split index' pos'"
proof (cases "int i = linePos")
  case False
  then show ?thesis using inv by (simp add: mark_cursor_def)
next
  case True
  have n: "split ! (length split - 1) = last split" using ne by (simp add: last_conv_nth)
  have k: "nat (int (length split) - 1) = length split - 1" by simp
  have "0 < length (last split)" using l by simp
  then have "tok_inv split (int (length split) - 1) (int (length (last split)) - 1)"
    using ne n unfolding tok_inv_def k by simp
  then show ?thesis using True ne n by (simp add: mark_cursor_def)
qed

lemma grown_step:
  assumes inv: "tok_inv grown index pos"
  shows "\<exists>split' index' pos'.
           append_to_last grown (EncodeRune r) = Inr split'
           \<and> mark_cursor linePos i split' index pos = Inr (index', pos')
           \<and> tok_inv split' index' pos' \<and> concat split' = concat grown @ EncodeRune r"
proof -
  let ?s = "butlast grown @ [last grown @ EncodeRune r]"
  have ne: "grown \<noteq> []" using inv by (simp add: tok_inv_def)
  have a: "append_to_last grown (EncodeRune r) = Inr ?s" using ne by (rule append_to_last_Inr)
  have inv': "tok_inv ?s index pos" using inv by (rule tok_inv_append_to_last)
  have l: "last ?s \<noteq> []" by (simp add: EncodeRune_def)
  have "?s \<noteq> []" by simp
  from mark_cursor_inv [OF this l inv', of linePos i]
  obtain index' pos' where "mark_cursor linePos i ?s index pos = Inr (index', pos')"
    and "tok_inv ?s index' pos'" by blast
  then show ?thesis using a concat_append_to_last [OF ne, of "EncodeRune r"] by auto
qed

lemma tokeniseLine_step_inv:
  assumes inv: "tok_inv split index pos"
  shows "\<exists>split' punc' index' pos'.
           tokeniseLine_step ln linePos i r (split, punc, index, pos)
             = Inr (split', punc', index', pos')
           \<and> tok_inv split' index' pos' \<and> concat split' = concat split @ EncodeRune r"
proof -
  define grown where "grown =
        (if isPunctuation r then
           (if i > 0 \<and> ln ! (i - 1) \<noteq> r then split @ [''''] else split)
         else if r = 32 \<or> r = 9 \<or> r = 10 then split
         else if punc then split @ [''''] else split)"
  have g: "grown = split \<or> grown = split @ ['''']" unfolding grown_def by simp
  then have ginv: "tok_inv grown index pos" using inv tok_inv_grow [OF inv] by auto
  have gc: "concat grown = concat split" using g by auto
  from grown_step [OF ginv, of r linePos i]
  obtain split' index' pos' where
    "append_to_last grown (EncodeRune r) = Inr split'"
    "mark_cursor linePos i split' index pos = Inr (index', pos')"
    "tok_inv split' index' pos'" "concat split' = concat grown @ EncodeRune r" by blast
  then show ?thesis using gc unfolding grown_def [symmetric]
    by (simp add: grown_def [symmetric] Let_def)
qed

lemma tokeniseSplitSpaces_step_inv:
  assumes inv: "tok_inv split index pos"
  shows "\<exists>split' index' pos'.
           tokeniseSplitSpaces_step ln linePos i r (split, index, pos)
             = Inr (split', index', pos')
           \<and> tok_inv split' index' pos' \<and> concat split' = concat split @ EncodeRune r"
proof -
  define grown where "grown =
        (if r = 32 \<or> r = 9 \<or> r = 10 then split
         else if i > 0 \<and> (ln ! (i - 1) = 32 \<or> ln ! (i - 1) = 9 \<or> ln ! (i - 1) = 10)
           then split @ [''''] else split)"
  have g: "grown = split \<or> grown = split @ ['''']" unfolding grown_def by simp
  then have ginv: "tok_inv grown index pos" using inv tok_inv_grow [OF inv] by auto
  have gc: "concat grown = concat split" using g by auto
  from grown_step [OF ginv, of r linePos i]
  obtain split' index' pos' where
    "append_to_last grown (EncodeRune r) = Inr split'"
    "mark_cursor linePos i split' index pos = Inr (index', pos')"
    "tok_inv split' index' pos'" "concat split' = concat grown @ EncodeRune r" by blast
  then show ?thesis using gc unfolding grown_def [symmetric]
    by (simp add: grown_def [symmetric] Let_def)
qed

lemma tokeniseLine_loop_inv:
  assumes "tok_inv split index pos"
  shows "\<exists>split' punc' index' pos'.
           tokeniseLine_loop ln linePos i rs (split, punc, index, pos)
             = Inr (split', punc', index', pos')
           \<and> tok_inv split' index' pos' \<and> concat split' = concat split @ string_of_runes rs"
  using assms
proof (induction rs arbitrary: i split punc index pos)
  case Nil
  then show ?case by (simp add: string_of_runes_def)
next
  case (Cons r rs)
  from tokeniseLine_step_inv [OF Cons.prems, of ln linePos i r punc]
  obtain s1 p1 i1 q1 where
    step: "tokeniseLine_step ln linePos i r (split, punc, index, pos) = Inr (s1, p1, i1, q1)"
    and inv1: "tok_inv s1 i1 q1" and c1: "concat s1 = concat split @ EncodeRune r" by blast
  from Cons.IH [OF inv1, of "Suc i" p1]
  obtain s2 p2 i2 q2 where
    "tokeniseLine_loop ln linePos (Suc i) rs (s1, p1, i1, q1) = Inr (s2, p2, i2, q2)"
    "tok_inv s2 i2 q2" "concat s2 = concat s1 @ string_of_runes rs" by blast
  then show ?case using step c1 by (simp add: string_of_runes_def)
qed

lemma tokeniseSplitSpaces_loop_inv:
  assumes "tok_inv split index pos"
  shows "\<exists>split' index' pos'.
           tokeniseSplitSpaces_loop ln linePos i rs (split, index, pos)
             = Inr (split', index', pos')
           \<and> tok_inv split' index' pos' \<and> concat split' = concat split @ string_of_runes rs"
  using assms
proof (induction rs arbitrary: i split index pos)
  case Nil
  then show ?case by (simp add: string_of_runes_def)
next
  case (Cons r rs)
  from tokeniseSplitSpaces_step_inv [OF Cons.prems, of ln linePos i r]
  obtain s1 i1 q1 where
    step: "tokeniseSplitSpaces_step ln linePos i r (split, index, pos) = Inr (s1, i1, q1)"
    and inv1: "tok_inv s1 i1 q1" and c1: "concat s1 = concat split @ EncodeRune r" by blast
  from Cons.IH [OF inv1, of "Suc i"]
  obtain s2 i2 q2 where
    "tokeniseSplitSpaces_loop ln linePos (Suc i) rs (s1, i1, q1) = Inr (s2, i2, q2)"
    "tok_inv s2 i2 q2" "concat s2 = concat s1 @ string_of_runes rs" by blast
  then show ?case using step c1 by (simp add: string_of_runes_def)
qed

lemma tokenise_finish_ok:
  assumes inv: "tok_inv split index pos" and c: "concat split = string_of_runes ln"
  shows "\<exists>res. tokenise_finish ln linePos split index pos = Inr res
           \<and> well_tokenised ln res"
proof (cases "linePos = int (length ln)")
  case False
  then show ?thesis using inv c by (simp add: tokenise_finish_def well_tokenised_def tok_inv_def)
next
  case True
  have ne: "split \<noteq> []" using inv by (simp add: tok_inv_def)
  have k: "nat (int (length split) - 1) = length split - 1" by simp
  show ?thesis using True ne c unfolding tokenise_finish_def well_tokenised_def
    by (simp add: k)
qed

lemma tokeniseLine_ok:
  assumes "ln \<noteq> []"
  shows "\<exists>res. tokeniseLine ln linePos = Inr res \<and> well_tokenised ln res"
proof -
  have "tok_inv [''''] 0 0" by (simp add: tok_inv_def)
  from tokeniseLine_loop_inv [OF this, of ln linePos 0 ln False]
  obtain s p i q where
    l: "tokeniseLine_loop ln linePos 0 ln ([''''], False, 0, 0) = Inr (s, p, i, q)"
    and inv: "tok_inv s i q" and c: "concat s = string_of_runes ln" by auto
  from tokenise_finish_ok [OF inv c, of linePos] show ?thesis
    using assms l by (simp add: tokeniseLine_def)
qed

lemma tokeniseSplitSpaces_ok:
  assumes "ln \<noteq> []"
  shows "\<exists>res. tokeniseSplitSpaces ln linePos = Inr res \<and> well_tokenised ln res"
proof -
  have "tok_inv [''''] 0 0" by (simp add: tok_inv_def)
  from tokeniseSplitSpaces_loop_inv [OF this, of ln linePos 0 ln]
  obtain s i q where
    l: "tokeniseSplitSpaces_loop ln linePos 0 ln ([''''], 0, 0) = Inr (s, i, q)"
    and inv: "tok_inv s i q" and c: "concat s = string_of_runes ln" by auto
  from tokenise_finish_ok [OF inv c, of linePos] show ?thesis
    using assms l by (simp add: tokeniseSplitSpaces_def)
qed

text \<open>
  C10. On a non-empty line and a cursor position \<open>0 \<le> linePos \<le> len(line)\<close>, both
  \<open>tokeniseLine\<close> and \<open>tokeniseSplitSpaces\<close> return (they do not panic) segments whose
  concatenation is the line, an index \<open>0 \<le> index < len(split)\<close> and a position
  \<open>0 \<le> pos \<le> len(split[index])\<close>; on the empty line both return \<open>(nil, 0, 0)\<close>.
\<close>

theorem tokenisers_well_tokenised:
  "(ln \<noteq> [] \<and> 0 \<le> linePos \<and> linePos \<le> int (length ln) \<longrightarrow>
      (\<exists>res. tokeniseLine ln linePos = Inr res \<and> well_tokenised ln res)
      \<and> (\<exists>res. tokeniseSplitSpaces ln linePos = Inr res \<and> well_tokenised ln res))
   \<and> tokeniseLine [] linePos = Inr ([], 0, 0)
   \<and> tokeniseSplitSpaces [] linePos = Inr ([], 0, 0)"
  using tokeniseLine_ok [of ln linePos] tokeniseSplitSpaces_ok [of ln linePos]
  by (simp add: tokeniseLine_def tokeniseSplitSpaces_def)

theorem tokenisers_well_tokenised_witness:
  "[108, 115, 32, 45, 108] \<noteq> ([] :: rune list) \<and> (0::int) \<le> 3
   \<and> (3::int) \<le> int (length [108, 115, 32, 45, 108 :: rune])
   \<and> (\<exists>res. tokeniseLine [108, 115, 32, 45, 108] 3 = Inr res
          \<and> well_tokenised [108, 115, 32, 45, 108] res)
   \<and> (\<exists>res. tokeniseSplitSpaces [108, 115, 32, 45, 108] 3 = Inr res
          \<and> well_tokenised [108, 115, 32, 45, 108] res)"
  using tokenisers_well_tokenised [of "[108, 115, 32, 45, 108]" 3] by simp

section \<open>The repaint undoes the previous paint before it computes the new geometry\<close>

lemma out_emit: "out (emit x e) = out e @ [x]"
  by (simp add: emit_def)

lemma geometry_emit:
  "cursorCol (emit x e) = cursorCol e" "cursorRow (emit x e) = cursorRow e"
  "startCols (emit x e) = startCols e" "lineRows (emit x e) = lineRows e"
  by (simp_all add: emit_def)

lemma out_CursorToLineStart:
  "out (CursorToLineStart e) =
     out e @ [MoveCursorBackwards (cursorCol e), MoveCursorUp (cursorRow e),
              MoveCursorForwards (startCols e - 1)]"
  by (simp add: CursorToLineStart_def out_emit geometry_emit)

lemma geometry_CursorToLineStart:
  "cursorCol (CursorToLineStart e) = cursorCol e"
  "cursorRow (CursorToLineStart e) = cursorRow e"
  "startCols (CursorToLineStart e) = startCols e"
  by (simp_all add: CursorToLineStart_def geometry_emit)

lemma out_computeCoordinates: "out (computeCoordinates env e) = out e"
  by (simp add: computeCoordinates_def Let_def)

text \<open>The geometry that \<open>computeCoordinates\<close> stores comes from the collaborators alone.\<close>

lemma geometry_computeCoordinates:
  "startCols (computeCoordinates env e) =
     (if fst (keys_GetCursorPos env) = - 1 then prompt_LastUsed env
      else fst (keys_GetCursorPos env))"
  "cursorCol (computeCoordinates env e) =
     fst (Cursor_Coordinates env (fst (completer_Line env)) (snd (completer_Line env))
            (startCols (computeCoordinates env e)))"
  "cursorRow (computeCoordinates env e) =
     snd (Cursor_Coordinates env (fst (completer_Line env)) (snd (completer_Line env))
            (startCols (computeCoordinates env e)))"
  by (simp_all add: computeCoordinates_def Let_def)

lemma out_displayLine: "\<exists>xs. out (displayLine env e) = out e @ xs"
  by (simp add: displayLine_def Let_def out_emit emit_def)

lemma geometry_displayLine:
  "cursorCol (displayLine env e) = cursorCol e" "cursorRow (displayLine env e) = cursorRow e"
  "startCols (displayLine env e) = startCols e"
  by (simp_all add: displayLine_def Let_def emit_def)

lemma out_displayHelpers: "\<exists>xs. out (displayHelpers env e) = out e @ xs"
  by (simp add: displayHelpers_def Let_def emit_def)

lemma geometry_displayHelpers:
  "cursorCol (displayHelpers env e) = cursorCol e"
  "cursorRow (displayHelpers env e) = cursorRow e"
  "startCols (displayHelpers env e) = startCols e"
  by (simp_all add: displayHelpers_def Let_def emit_def)

lemma out_CursorHintToLineStart: "\<exists>xs. out (CursorHintToLineStart e) = out e @ xs"
  by (simp add: CursorHintToLineStart_def out_CursorToLineStart out_emit)

lemma geometry_CursorHintToLineStart:
  "cursorCol (CursorHintToLineStart e) = cursorCol e"
  "cursorRow (CursorHintToLineStart e) = cursorRow e"
  "startCols (CursorHintToLineStart e) = startCols e"
  by (simp_all add: CursorHintToLineStart_def geometry_CursorToLineStart geometry_emit)

lemma out_LineStartToCursorPos: "\<exists>xs. out (LineStartToCursorPos env e) = out e @ xs"
  by (simp add: LineStartToCursorPos_def out_emit)

lemma geometry_LineStartToCursorPos:
  "cursorCol (LineStartToCursorPos env e) = cursorCol e"
  "cursorRow (LineStartToCursorPos env e) = cursorRow e"
  "startCols (LineStartToCursorPos env e) = startCols e"
  by (simp_all add: LineStartToCursorPos_def geometry_emit)

lemma Refresh_split:
  "Refresh env e =
     Refresh_paint env (computeCoordinates env (CursorToLineStart (emit HideCursor e)))"
  by (simp add: Refresh_def Refresh_paint_def Let_def)

lemma out_Refresh_paint: "\<exists>xs. out (Refresh_paint env e) = out e @ xs"
proof -
  define e3 where "e3 = emit (MoveCursorForwards (startCols e))
                          (emit (MoveCursorBackwards (term_GetWidth env)) e)"
  define e4 where "e4 = displayLine env e3"
  define e5 where "e5 = emit (Prompt_RightPrint (lineCol e4) True) e4"
  define e6 where "e6 = displayHelpers env e5"
  define e6' where "e6' = CursorHintToLineStart e6"
  define e7 where "e7 = LineStartToCursorPos env e6'"
  have r: "Refresh_paint env e = emit ShowCursor e7"
    by (simp add: Refresh_paint_def Let_def e3_def e4_def e5_def e6_def e6'_def e7_def)
  obtain x3 where x3: "out e3 = out e @ x3" by (simp add: e3_def out_emit)
  obtain x4 where x4: "out e4 = out e3 @ x4" using out_displayLine e4_def by blast
  obtain x5 where x5: "out e5 = out e4 @ x5" by (simp add: e5_def out_emit)
  obtain x6 where x6: "out e6 = out e5 @ x6" using out_displayHelpers e6_def by blast
  obtain x6' where x6': "out e6' = out e6 @ x6'"
    using out_CursorHintToLineStart e6'_def by blast
  obtain x7 where x7: "out e7 = out e6' @ x7" using out_LineStartToCursorPos e7_def by blast
  have "out (Refresh_paint env e) = out e @ (x3 @ x4 @ x5 @ x6 @ x6' @ x7 @ [ShowCursor])"
    by (simp add: r out_emit x3 x4 x5 x6 x6' x7)
  then show ?thesis by blast
qed

lemma geometry_Refresh_paint:
  "cursorCol (Refresh_paint env e) = cursorCol e"
  "cursorRow (Refresh_paint env e) = cursorRow e"
  "startCols (Refresh_paint env e) = startCols e"
  by (simp_all add: Refresh_paint_def Let_def geometry_emit geometry_displayLine
        geometry_displayHelpers geometry_CursorHintToLineStart geometry_LineStartToCursorPos)

lemma out_Refresh:
  "\<exists>rest. out (Refresh env e) =
            out e @ [HideCursor, MoveCursorBackwards (cursorCol e), MoveCursorUp (cursorRow e),
                     MoveCursorForwards (startCols e - 1)] @ rest"
proof -
  let ?e1 = "CursorToLineStart (emit HideCursor e)"
  let ?e2 = "computeCoordinates env ?e1"
  obtain xs where "out (Refresh_paint env ?e2) = out ?e2 @ xs"
    using out_Refresh_paint by blast
  then have "out (Refresh env e) =
      out e @ [HideCursor, MoveCursorBackwards (cursorCol e), MoveCursorUp (cursorRow e),
               MoveCursorForwards (startCols e - 1)] @ xs"
    by (simp add: Refresh_split out_computeCoordinates out_CursorToLineStart out_emit
          geometry_emit)
  then show ?thesis by blast
qed

lemma geometry_Refresh:
  "cursorCol (Refresh env e) = cursorCol (computeCoordinates env e)"
  "cursorRow (Refresh env e) = cursorRow (computeCoordinates env e)"
  "startCols (Refresh env e) = startCols (computeCoordinates env e)"
  by (simp_all add: Refresh_split geometry_Refresh_paint geometry_computeCoordinates)

text \<open>
  C8. In every call of \<open>Refresh\<close>, whatever the other components answer, the first things
  sent to the terminal are the hiding of the cursor and the three moves of
  \<open>CursorToLineStart\<close>, with the values that \<open>cursorCol\<close>, \<open>cursorRow\<close> and \<open>startCols\<close> had
  when the call began; only then does \<open>computeCoordinates\<close> overwrite the three fields,
  and the values it computes are the ones the engine holds when \<open>Refresh\<close> returns. So a
  second call, whatever is answered to it, starts by undoing the paint of the first with
  the geometry that the first call computed.
\<close>

theorem Refresh_undoes_with_previous_geometry:
  "(\<exists>rest. out (Refresh env e) =
            out e @ [HideCursor, MoveCursorBackwards (cursorCol e), MoveCursorUp (cursorRow e),
                     MoveCursorForwards (startCols e - 1)] @ rest)
   \<and> cursorCol (Refresh env e) = cursorCol (computeCoordinates env e)
   \<and> cursorRow (Refresh env e) = cursorRow (computeCoordinates env e)
   \<and> startCols (Refresh env e) = startCols (computeCoordinates env e)
   \<and> (\<exists>rest. out (Refresh env' (Refresh env e)) =
            out (Refresh env e)
            @ [HideCursor, MoveCursorBackwards (cursorCol (computeCoordinates env e)),
               MoveCursorUp (cursorRow (computeCoordinates env e)),
               MoveCursorForwards (startCols (computeCoordinates env e) - 1)] @ rest)"
proof -
  have "\<exists>rest. out (Refresh env' (Refresh env e)) =
            out (Refresh env e)
            @ [HideCursor, MoveCursorBackwards (cursorCol (computeCoordinates env e)),
               MoveCursorUp (cursorRow (computeCoordinates env e)),
               MoveCursorForwards (startCols (computeCoordinates env e) - 1)] @ rest"
    using out_Refresh [of env' "Refresh env e"] by (simp add: geometry_Refresh)
  then show ?thesis using out_Refresh [of env e] geometry_Refresh [of env e] by blast
qed

section \<open>Suffix preparation\<close>

lemma prepareSuffix_short:
  assumes "currentGroup e = Some cur" "Value (selected e) \<noteq> []"
    and "length (prefix e) \<le> length (Value (selected e))"
    and "length (Value (selected e)) - length (prefix e) \<le> 1"
  shows "prepareSuffix e = Inr (Value (selected e), e)"
  using assms by (simp add: prepareSuffix_def Let_def)

lemma prepareSuffix_long:
  assumes "currentGroup e = Some cur" "caller e = key # ks"
    and "1 < int (length (Value (selected e))) - int (length (prefix e))"
  shows "prepareSuffix e =
           Inr (Value (selected e),
                e\<lparr>sm := \<lparr>sm_string = sm_string (noSpace cur),
                          sm_pos = cursor e + int (length (Value (selected e)))
                                   - int (length (prefix e)) - 1\<rparr>\<rparr>)"
proof -
  have ne: "Value (selected e) \<noteq> []" using assms(3) by auto
  have a: "\<not> length (Value (selected e)) < length (prefix e)" using assms(3) by linarith
  have b: "\<not> length (Value (selected e)) - length (prefix e) \<le> 1" using assms(3) by linarith
  show ?thesis using assms(1,2) ne a b
    by (simp add: prepareSuffix_def Let_def)
qed

lemma prepareSuffix_long_no_key:
  assumes "currentGroup e = Some cur" "caller e = []"
    and "1 < int (length (Value (selected e))) - int (length (prefix e))"
  shows "prepareSuffix e = Inl IndexOutOfRange"
proof -
  have ne: "Value (selected e) \<noteq> []" using assms(3) by auto
  have a: "\<not> length (Value (selected e)) < length (prefix e)" using assms(3) by linarith
  have b: "\<not> length (Value (selected e)) - length (prefix e) \<le> 1" using assms(3) by linarith
  show ?thesis using assms(1,2) ne a b
    by (simp add: prepareSuffix_def Let_def)
qed

lemma prepareSuffix_short_result:
  assumes "currentGroup e = Some cur"
    and "int (length (Value (selected e))) - int (length (prefix e)) \<le> 1"
    and "prepareSuffix e = Inr r"
  shows "r = (Value (selected e), e)"
proof (cases "Value (selected e) = []")
  case True
  then show ?thesis using assms by (simp add: prepareSuffix_def Let_def)
next
  case False
  show ?thesis
  proof (cases "length (Value (selected e)) < length (prefix e)")
    case True
    then show ?thesis using assms False by (simp add: prepareSuffix_def Let_def)
  next
    case le: False
    then have "length (Value (selected e)) - length (prefix e) \<le> 1" using assms(2) by linarith
    then show ?thesis
      using prepareSuffix_short [OF assms(1) False] le assms(3) by simp
  qed
qed

text \<open>Whatever it records, \<open>prepareSuffix\<close> returns the candidate as it is.\<close>

lemma prepareSuffix_result:
  assumes "currentGroup e = Some cur" "prepareSuffix e = Inr (c, e')"
  shows "c = Value (selected e) \<and> (\<exists>m. e' = e\<lparr>sm := m\<rparr>)"
proof (cases "int (length (Value (selected e))) - int (length (prefix e)) \<le> 1")
  case True
  from prepareSuffix_short_result [OF assms(1) True assms(2)]
  have "c = Value (selected e)" "e' = e\<lparr>sm := sm e\<rparr>" by simp_all
  then show ?thesis by blast
next
  case False
  then have l: "1 < int (length (Value (selected e))) - int (length (prefix e))" by simp
  show ?thesis
  proof (cases "caller e")
    case Nil
    then show ?thesis using prepareSuffix_long_no_key [OF assms(1) Nil l] assms(2) by simp
  next
    case (Cons key ks)
    then show ?thesis using prepareSuffix_long [OF assms(1) Cons l] assms(2) by auto
  qed
qed

lemma prepareSuffix_returns:
  assumes "currentGroup e = Some cur" "Value (selected e) \<noteq> []"
    and "length (prefix e) \<le> length (Value (selected e))"
    and "1 < int (length (Value (selected e))) - int (length (prefix e)) \<longrightarrow> caller e \<noteq> []"
  shows "\<exists>m. prepareSuffix e = Inr (Value (selected e), e\<lparr>sm := m\<rparr>)"
proof (cases "1 < int (length (Value (selected e))) - int (length (prefix e))")
  case True
  then obtain key ks where "caller e = key # ks" using assms(4) by (cases "caller e") auto
  from prepareSuffix_long [OF assms(1) this True] show ?thesis by blast
next
  case False
  then have "length (Value (selected e)) - length (prefix e) \<le> 1" by linarith
  from prepareSuffix_short [OF assms(1,2,3) this]
  have "prepareSuffix e = Inr (Value (selected e), e\<lparr>sm := sm e\<rparr>)" by simp
  then show ?thesis by blast
qed

text \<open>Whether \<open>prepareSuffix\<close> returns depends on the candidate, the prefix and the
  calling keys only.\<close>

lemma prepareSuffix_returns_iff:
  assumes "currentGroup e = Some cur"
  shows "(\<exists>r. prepareSuffix e = Inr r) \<longleftrightarrow>
           Value (selected e) \<noteq> [] \<and> length (prefix e) \<le> length (Value (selected e))
           \<and> (1 < int (length (Value (selected e))) - int (length (prefix e))
                \<longrightarrow> caller e \<noteq> [])"
proof
  assume "\<exists>r. prepareSuffix e = Inr r"
  then obtain r where r: "prepareSuffix e = Inr r" by blast
  have a: "Value (selected e) \<noteq> []"
    using r assms by (auto simp: prepareSuffix_def Let_def split: if_splits)
  have b: "length (prefix e) \<le> length (Value (selected e))"
    using r assms a by (auto simp: prepareSuffix_def Let_def split: if_splits)
  have c: "1 < int (length (Value (selected e))) - int (length (prefix e)) \<longrightarrow> caller e \<noteq> []"
    using r prepareSuffix_long_no_key [OF assms] by auto
  show "Value (selected e) \<noteq> [] \<and> length (prefix e) \<le> length (Value (selected e))
        \<and> (1 < int (length (Value (selected e))) - int (length (prefix e))
             \<longrightarrow> caller e \<noteq> [])"
    using a b c by blast
next
  assume "Value (selected e) \<noteq> [] \<and> length (prefix e) \<le> length (Value (selected e))
        \<and> (1 < int (length (Value (selected e))) - int (length (prefix e))
             \<longrightarrow> caller e \<noteq> [])"
  then show "\<exists>r. prepareSuffix e = Inr r"
    using prepareSuffix_returns [OF assms] by blast
qed

text \<open>
  C7. Let \<open>c\<close> be the selected candidate and \<open>p\<close> the prefix, with a current group. If
  what remains of \<open>c\<close> after \<open>p\<close> has length at most 1, \<open>prepareSuffix\<close> never returns with a
  matcher recorded or the candidate changed: every result is \<open>c\<close> with the engine as it
  was, and for a non-empty \<open>c\<close> that \<open>p\<close> does not exceed this result is returned.
  Otherwise every result is \<open>c\<close> with the separator set of the group recorded at position
  \<open>cursor + len(c) - len(p) - 1\<close>, and this result is returned whenever a calling key
  exists.
\<close>

theorem prepareSuffix_records_matcher:
  assumes "currentGroup e = Some cur"
  shows "(int (length (Value (selected e))) - int (length (prefix e)) \<le> 1 \<longrightarrow>
            (\<forall>r. prepareSuffix e = Inr r \<longrightarrow> r = (Value (selected e), e))
            \<and> (Value (selected e) \<noteq> [] \<and> length (prefix e) \<le> length (Value (selected e))
                 \<longrightarrow> prepareSuffix e = Inr (Value (selected e), e)))
       \<and> (1 < int (length (Value (selected e))) - int (length (prefix e)) \<longrightarrow>
            (\<forall>r. prepareSuffix e = Inr r \<longrightarrow>
                 r = (Value (selected e),
                      e\<lparr>sm := \<lparr>sm_string = sm_string (noSpace cur),
                                sm_pos = cursor e + int (length (Value (selected e)))
                                         - int (length (prefix e)) - 1\<rparr>\<rparr>))
            \<and> (caller e \<noteq> [] \<longrightarrow>
                 prepareSuffix e =
                   Inr (Value (selected e),
                        e\<lparr>sm := \<lparr>sm_string = sm_string (noSpace cur),
                                  sm_pos = cursor e + int (length (Value (selected e)))
                                           - int (length (prefix e)) - 1\<rparr>\<rparr>)))"
proof (intro conjI impI allI)
  fix r
  assume "int (length (Value (selected e))) - int (length (prefix e)) \<le> 1"
    and "prepareSuffix e = Inr r"
  then show "r = (Value (selected e), e)"
    using prepareSuffix_short_result [OF assms] by blast
next
  assume s: "int (length (Value (selected e))) - int (length (prefix e)) \<le> 1"
    and "Value (selected e) \<noteq> [] \<and> length (prefix e) \<le> length (Value (selected e))"
  moreover from s have "length (Value (selected e)) - length (prefix e) \<le> 1" by linarith
  ultimately show "prepareSuffix e = Inr (Value (selected e), e)"
    using prepareSuffix_short [OF assms] by blast
next
  fix r
  assume l: "1 < int (length (Value (selected e))) - int (length (prefix e))"
    and r: "prepareSuffix e = Inr r"
  show "r = (Value (selected e),
             e\<lparr>sm := \<lparr>sm_string = sm_string (noSpace cur),
                       sm_pos = cursor e + int (length (Value (selected e)))
                                - int (length (prefix e)) - 1\<rparr>\<rparr>)"
  proof (cases "caller e")
    case Nil
    then show ?thesis using prepareSuffix_long_no_key [OF assms Nil l] r by simp
  next
    case (Cons key ks)
    then show ?thesis using prepareSuffix_long [OF assms Cons l] r by simp
  qed
next
  assume l: "1 < int (length (Value (selected e))) - int (length (prefix e))"
    and "caller e \<noteq> []"
  then obtain key ks where "caller e = key # ks" by (cases "caller e") auto
  from prepareSuffix_long [OF assms this l]
  show "prepareSuffix e =
          Inr (Value (selected e),
               e\<lparr>sm := \<lparr>sm_string = sm_string (noSpace cur),
                         sm_pos = cursor e + int (length (Value (selected e)))
                                  - int (length (prefix e)) - 1\<rparr>\<rparr>)" .
qed

theorem prepareSuffix_records_matcher_witness:
  "currentGroup preview_engine = Some local_group
   \<and> 1 < int (length (Value (selected preview_engine))) - int (length (prefix preview_engine))
   \<and> caller preview_engine \<noteq> []
   \<and> prepareSuffix preview_engine =
       Inr (''local/'', preview_engine\<lparr>sm := \<lparr>sm_string = ''/'', sm_pos = 13\<rparr>\<rparr>)
   \<and> currentGroup flag_engine = Some flag_group
   \<and> int (length (Value (selected flag_engine))) - int (length (prefix flag_engine)) \<le> 1
   \<and> Value (selected flag_engine) \<noteq> []
   \<and> length (prefix flag_engine) \<le> length (Value (selected flag_engine))
   \<and> prepareSuffix flag_engine = Inr (''-l'', flag_engine)"
  using prepareSuffix_records_matcher [of preview_engine local_group]
    prepareSuffix_records_matcher [of flag_engine flag_group]
  by (simp add: preview_engine_def local_engine_def local_group_def local_candidate_def
        flag_engine_def flag_group_def flag_candidate_def)

section \<open>Trimming the suffix on the next key\<close>

lemma TrimSuffix_guard:
  assumes "Line_Len (line e) = 0 \<or> cursor e = 0 \<or> Value (selected e) \<noteq> []"
  shows "TrimSuffix e = Inr e"
  using assms by (auto simp: TrimSuffix_def)

lemma TrimSuffix_orphan:
  assumes "Line_Len (line e) \<noteq> 0" "cursor e \<noteq> 0" "Value (selected e) = []"
    and "sm_pos (sm e) \<noteq> cursor e - 1"
  shows "TrimSuffix e = Inr (e\<lparr>sm := SuffixMatcher_zero\<rparr>)"
  using assms by (simp add: TrimSuffix_def)

lemma TrimSuffix_keep:
  assumes "0 < cursor e" "cursor e \<le> Line_Len (line e)" "caller e = key # ks"
    and "line e ! nat (cursor e - 1) = 47" "key \<noteq> Space" "notMatcher key (sm_string (sm e))"
  shows "\<exists>e'. TrimSuffix e = Inr e' \<and> line e' = line e \<and> cursor e' = cursor e"
  using assms by (simp add: TrimSuffix_def Let_def)

lemma Line_CutRune_before:
  assumes "0 < c" "c \<le> Line_Len l"
  shows "Line_CutRune l (Cursor_Dec c) = take (nat (c - 1)) l @ drop (nat c) l"
proof -
  have "Suc (nat (c - 1)) = nat c" using assms by simp
  then show ?thesis using assms by (simp add: Line_CutRune_def Cursor_Dec_def Line_Len_def)
qed

lemma TrimSuffix_delete:
  assumes "0 < cursor e" "cursor e \<le> Line_Len (line e)" "Value (selected e) = []"
    and "sm_pos (sm e) = cursor e - 1" "caller e = key # ks"
    and "\<not> (line e ! nat (cursor e - 1) = 47 \<and> key \<noteq> Space
             \<and> notMatcher key (sm_string (sm e)))"
    and "Matches (sm e) (EncodeRune key) \<or> IsSpace key"
  shows "TrimSuffix e =
           Inr (e\<lparr>cursor := cursor e - 1,
                  line := take (nat (cursor e - 1)) (line e) @ drop (nat (cursor e)) (line e)\<rparr>)"
proof -
  have d: "Cursor_Dec (cursor e) = cursor e - 1" using assms(1) by (simp add: Cursor_Dec_def)
  have c: "Line_CutRune (line e) (cursor e - 1)
           = take (nat (cursor e - 1)) (line e) @ drop (nat (cursor e)) (line e)"
    using Line_CutRune_before [OF assms(1,2)] d by simp
  have g: "Line_Len (line e) \<noteq> 0" "cursor e \<noteq> 0" "\<not> Line_Len (line e) \<le> cursor e - 1"
    "\<not> cursor e - 1 < 0"
    using assms(1,2) by simp_all
  show ?thesis
    unfolding TrimSuffix_def using g assms(3-7) by (auto simp: Let_def d c)
qed

lemma notMatcher_loop_set: "notMatcher_loop key rs \<longleftrightarrow> key \<notin> set rs"
  by (induction rs) auto

lemma member_Matches:
  assumes "\<not> notMatcher key (sm_string m)"
  shows "Matches m (EncodeRune key)"
  using assms by (auto simp: notMatcher_def notMatcher_loop_set Matches_def)

lemma IsSpace_Space: "IsSpace Space"
  by (simp add: IsSpace_def Space_def)

text \<open>After a deletion the recorded position no longer is the one before the cursor.\<close>

lemma TrimSuffix_after_delete:
  assumes "Value (selected e) = []" "sm_pos (sm e) = cursor e - 1"
  shows "\<exists>e2. TrimSuffix (e\<lparr>cursor := cursor e - 1, line := l\<rparr>) = Inr e2
             \<and> line e2 = l \<and> cursor e2 = cursor e - 1"
proof (cases "Line_Len l = 0 \<or> cursor e - 1 = 0")
  case True
  then show ?thesis using TrimSuffix_guard [of "e\<lparr>cursor := cursor e - 1, line := l\<rparr>"] by auto
next
  case False
  then show ?thesis
    using assms TrimSuffix_orphan [of "e\<lparr>cursor := cursor e - 1, line := l\<rparr>"] by auto
qed

text \<open>
  C2, as amended. Let no candidate be selected, the cursor be inside the line and not at
  0, and the matcher be recorded at position \<open>cursor - 1\<close>. If the typed key is a member of
  the recorded separator set, or is the space key, or is any whitespace while the rune
  before the cursor is not \<open>/\<close>, then a first \<open>TrimSuffix\<close> deletes exactly the rune before
  the cursor and moves the cursor back by one, and a second \<open>TrimSuffix\<close> with the same
  key right after it returns with the line and the cursor unchanged.
\<close>

theorem TrimSuffix_trims_once:
  assumes "0 < cursor e" "cursor e \<le> Line_Len (line e)" "Value (selected e) = []"
    and "sm_pos (sm e) = cursor e - 1" "caller e = key # ks"
    and "\<not> notMatcher key (sm_string (sm e)) \<or> key = Space
         \<or> (IsSpace key \<and> line e ! nat (cursor e - 1) \<noteq> 47)"
  shows "\<exists>e1 e2. TrimSuffix e = Inr e1
           \<and> line e1 = take (nat (cursor e - 1)) (line e) @ drop (nat (cursor e)) (line e)
           \<and> cursor e1 = cursor e - 1 \<and> caller e1 = caller e
           \<and> TrimSuffix e1 = Inr e2 \<and> line e2 = line e1 \<and> cursor e2 = cursor e1"
proof -
  let ?l = "take (nat (cursor e - 1)) (line e) @ drop (nat (cursor e)) (line e)"
  let ?e1 = "e\<lparr>cursor := cursor e - 1, line := ?l\<rparr>"
  have k: "\<not> (line e ! nat (cursor e - 1) = 47 \<and> key \<noteq> Space
              \<and> notMatcher key (sm_string (sm e)))"
    using assms(6) by auto
  have m: "Matches (sm e) (EncodeRune key) \<or> IsSpace key"
    using assms(6) member_Matches [of key "sm e"] IsSpace_Space by auto
  have first: "TrimSuffix e = Inr ?e1"
    using TrimSuffix_delete [OF assms(1-5) k m] .
  obtain e2 where "TrimSuffix ?e1 = Inr e2" "line e2 = ?l" "cursor e2 = cursor e - 1"
    using TrimSuffix_after_delete [OF assms(3,4), of ?l] by blast
  then show ?thesis using first by auto
qed

theorem TrimSuffix_trims_once_witness:
  "(0::int) < cursor (accepted_engine 47)
   \<and> cursor (accepted_engine 47) \<le> Line_Len (line (accepted_engine 47))
   \<and> Value (selected (accepted_engine 47)) = []
   \<and> sm_pos (sm (accepted_engine 47)) = cursor (accepted_engine 47) - 1
   \<and> caller (accepted_engine 47) = [47]
   \<and> \<not> notMatcher 47 (sm_string (sm (accepted_engine 47)))
   \<and> (\<exists>e1 e2. TrimSuffix (accepted_engine 47) = Inr e1
         \<and> line e1 = [99, 100, 32, 47, 117, 115, 114, 47, 108, 111, 99, 97, 108]
         \<and> cursor e1 = 13 \<and> TrimSuffix e1 = Inr e2 \<and> line e2 = line e1
         \<and> cursor e2 = cursor e1)"
proof -
  have n: "\<not> notMatcher 47 (sm_string (sm (accepted_engine 47)))"
    by (simp add: accepted_engine_def notMatcher_def first_size_def)
  have h: "(0::int) < cursor (accepted_engine 47)"
    "cursor (accepted_engine 47) \<le> Line_Len (line (accepted_engine 47))"
    "Value (selected (accepted_engine 47)) = []"
    "sm_pos (sm (accepted_engine 47)) = cursor (accepted_engine 47) - 1"
    "caller (accepted_engine 47) = [47]"
    by (simp_all add: accepted_engine_def Line_Len_def Candidate_zero_def)
  from TrimSuffix_trims_once [OF h, of ] n
  obtain e1 e2 where "TrimSuffix (accepted_engine 47) = Inr e1"
    "line e1 = take (nat (cursor (accepted_engine 47) - 1)) (line (accepted_engine 47))
               @ drop (nat (cursor (accepted_engine 47))) (line (accepted_engine 47))"
    "cursor e1 = cursor (accepted_engine 47) - 1"
    "TrimSuffix e1 = Inr e2" "line e2 = line e1" "cursor e2 = cursor e1" by blast
  moreover have "take (nat (cursor (accepted_engine 47) - 1)) (line (accepted_engine 47))
               @ drop (nat (cursor (accepted_engine 47))) (line (accepted_engine 47))
        = [99, 100, 32, 47, 117, 115, 114, 47, 108, 111, 99, 97, 108]"
    by (simp add: accepted_engine_def)
  moreover have "cursor (accepted_engine 47) - 1 = 13" by (simp add: accepted_engine_def)
  ultimately show ?thesis using n h by auto
qed

text \<open>
  C2 as stated fails: the tab key is whitespace, the matcher \<open>/\<close> is recorded at
  \<open>cursor - 1\<close> and no candidate is selected, yet \<open>TrimSuffix\<close> returns the state as it was,
  with the slash still on the line.
\<close>

theorem TrimSuffix_whitespace_counterexample:
  "IsSpace 9 \<and> Value (selected (accepted_engine 9)) = []
   \<and> sm_pos (sm (accepted_engine 9)) = cursor (accepted_engine 9) - 1
   \<and> caller (accepted_engine 9) = [9]
   \<and> TrimSuffix (accepted_engine 9) = Inr (accepted_engine 9)"
  by (simp add: IsSpace_def accepted_engine_def Candidate_zero_def TrimSuffix_def Line_Len_def
        Space_def notMatcher_def first_size_def)

text \<open>
  C9, as amended. Whenever \<open>TrimSuffix\<close> runs while the recorded position differs from
  \<open>cursor - 1\<close>, it returns without an error, and the line and the cursor are unchanged, so
  no character is deleted. If the line is not empty, the cursor is not at 0 and no
  candidate is selected, the matcher is cleared to the empty matcher; otherwise
  \<open>TrimSuffix\<close> returns at its first test and the whole state, the matcher included, is as
  it was.
\<close>

theorem TrimSuffix_orphaned_matcher:
  assumes "sm_pos (sm e) \<noteq> cursor e - 1"
  shows "\<exists>e'. TrimSuffix e = Inr e' \<and> line e' = line e \<and> cursor e' = cursor e
           \<and> (Line_Len (line e) \<noteq> 0 \<and> cursor e \<noteq> 0 \<and> Value (selected e) = []
                \<longrightarrow> sm e' = SuffixMatcher_zero)
           \<and> (Line_Len (line e) = 0 \<or> cursor e = 0 \<or> Value (selected e) \<noteq> []
                \<longrightarrow> e' = e)"
proof (cases "Line_Len (line e) = 0 \<or> cursor e = 0 \<or> Value (selected e) \<noteq> []")
  case True
  then show ?thesis using TrimSuffix_guard [OF True] by auto
next
  case False
  then show ?thesis using TrimSuffix_orphan [of e] assms by auto
qed

theorem TrimSuffix_orphaned_matcher_witness:
  "sm_pos (sm ((accepted_engine 97)\<lparr>cursor := 5\<rparr>)) \<noteq> cursor ((accepted_engine 97)\<lparr>cursor := 5\<rparr>) - 1
   \<and> Line_Len (line ((accepted_engine 97)\<lparr>cursor := 5\<rparr>)) \<noteq> 0
   \<and> cursor ((accepted_engine 97)\<lparr>cursor := 5\<rparr>) \<noteq> 0
   \<and> Value (selected ((accepted_engine 97)\<lparr>cursor := 5\<rparr>)) = []
   \<and> (\<exists>e'. TrimSuffix ((accepted_engine 97)\<lparr>cursor := 5\<rparr>) = Inr e'
          \<and> line e' = line (accepted_engine 97) \<and> cursor e' = 5
          \<and> sm e' = SuffixMatcher_zero)
   \<and> sm_pos (sm preview_engine) \<noteq> cursor preview_engine - 1
   \<and> Value (selected preview_engine) \<noteq> []
   \<and> TrimSuffix preview_engine = Inr preview_engine"
proof -
  let ?e = "(accepted_engine 97)\<lparr>cursor := 5\<rparr>"
  have h: "sm_pos (sm ?e) \<noteq> cursor ?e - 1" by (simp add: accepted_engine_def)
  have g: "Line_Len (line ?e) \<noteq> 0" "cursor ?e \<noteq> 0" "Value (selected ?e) = []"
    by (simp_all add: accepted_engine_def Line_Len_def Candidate_zero_def)
  from TrimSuffix_orphaned_matcher [OF h] g
  obtain e' where "TrimSuffix ?e = Inr e'" "line e' = line ?e" "cursor e' = cursor ?e"
    "sm e' = SuffixMatcher_zero" by blast
  then have A: "\<exists>e'. TrimSuffix ?e = Inr e'
          \<and> line e' = line (accepted_engine 97) \<and> cursor e' = 5
          \<and> sm e' = SuffixMatcher_zero"
    by auto
  have p: "sm_pos (sm preview_engine) \<noteq> cursor preview_engine - 1"
    "Value (selected preview_engine) \<noteq> []"
    by (simp_all add: preview_engine_def local_engine_def local_candidate_def)
  from TrimSuffix_orphaned_matcher [OF p(1)] p(2)
  have B: "TrimSuffix preview_engine = Inr preview_engine" by blast
  show ?thesis using h g A p B by blast
qed

text \<open>
  C9 as stated fails: while the candidate \<open>local/\<close> is previewed, the matcher is recorded
  at position 13 and the cursor of the real line is at 11, so the matcher is orphaned;
  \<open>TrimSuffix\<close> returns at its first test and the matcher is not cleared.
\<close>

theorem TrimSuffix_orphaned_counterexample:
  "sm_pos (sm preview_engine) \<noteq> cursor preview_engine - 1
   \<and> TrimSuffix preview_engine = Inr preview_engine
   \<and> sm preview_engine \<noteq> SuffixMatcher_zero"
  by (simp add: preview_engine_def local_engine_def local_candidate_def TrimSuffix_def
        SuffixMatcher_zero_def)

text \<open>
  C6, as amended. \<open>prepareSuffix\<close> returns every candidate as it is, so it never removes
  a trailing \<open>/\<close>. When the rune before the cursor is \<open>/\<close> and the typed key is neither the
  space key nor a member of the recorded separator set, \<open>TrimSuffix\<close> returns with the
  line and the cursor unchanged: the separator is kept.
\<close>

theorem slash_kept_unless_separator_or_space:
  assumes "currentGroup a = Some cur" "HasSuffix (Value (selected a)) ''/''"
    and "0 < cursor e" "cursor e \<le> Line_Len (line e)"
    and "line e ! nat (cursor e - 1) = 47"
    and "caller e = key # ks" "key \<noteq> Space" "notMatcher key (sm_string (sm e))"
  shows "(\<forall>r. prepareSuffix a = Inr r \<longrightarrow> fst r = Value (selected a))
       \<and> (\<exists>e'. TrimSuffix e = Inr e' \<and> line e' = line e \<and> cursor e' = cursor e)"
proof
  show "\<forall>r. prepareSuffix a = Inr r \<longrightarrow> fst r = Value (selected a)"
    using prepareSuffix_result [OF assms(1)] by (metis prod.collapse)
next
  show "\<exists>e'. TrimSuffix e = Inr e' \<and> line e' = line e \<and> cursor e' = cursor e"
    using TrimSuffix_keep [OF assms(3,4,6,5,7,8)] .
qed

theorem slash_kept_unless_separator_or_space_witness:
  "currentGroup preview_engine = Some local_group
   \<and> HasSuffix (Value (selected preview_engine)) ''/''
   \<and> (0::int) < cursor (accepted_engine 97)
   \<and> cursor (accepted_engine 97) \<le> Line_Len (line (accepted_engine 97))
   \<and> line (accepted_engine 97) ! nat (cursor (accepted_engine 97) - 1) = 47
   \<and> caller (accepted_engine 97) = [97] \<and> 97 \<noteq> Space
   \<and> notMatcher 97 (sm_string (sm (accepted_engine 97)))
   \<and> (\<exists>r. prepareSuffix preview_engine = Inr r \<and> fst r = ''local/'')
   \<and> (\<exists>e'. TrimSuffix (accepted_engine 97) = Inr e'
          \<and> line e' = [99, 100, 32, 47, 117, 115, 114, 47, 108, 111, 99, 97, 108, 47]
          \<and> cursor e' = 14)"
proof -
  have a: "currentGroup preview_engine = Some local_group"
    "HasSuffix (Value (selected preview_engine)) ''/''"
    by (simp_all add: preview_engine_def local_engine_def local_candidate_def HasSuffix_def)
  have e: "(0::int) < cursor (accepted_engine 97)"
    "cursor (accepted_engine 97) \<le> Line_Len (line (accepted_engine 97))"
    "line (accepted_engine 97) ! nat (cursor (accepted_engine 97) - 1) = 47"
    "caller (accepted_engine 97) = [97]" "97 \<noteq> Space"
    "notMatcher 97 (sm_string (sm (accepted_engine 97)))"
    by (simp_all add: accepted_engine_def Line_Len_def Space_def notMatcher_def first_size_def)
  have v: "Value (selected preview_engine) = ''local/''"
    by (simp add: preview_engine_def local_candidate_def)
  have l: "line (accepted_engine 97) = [99, 100, 32, 47, 117, 115, 114, 47, 108, 111, 99, 97, 108, 47]"
    "cursor (accepted_engine 97) = 14"
    by (simp_all add: accepted_engine_def)
  have "\<exists>r. prepareSuffix preview_engine = Inr r"
    using prepareSuffix_returns_iff [OF a(1)]
    by (simp add: preview_engine_def local_engine_def local_candidate_def)
  then show ?thesis
    using slash_kept_unless_separator_or_space [OF a e] a e v l by auto
qed

text \<open>
  C6 as stated fails: the space key is not a member of the recorded separator set \<open>/\<close>,
  the rune before the cursor is \<open>/\<close>, and \<open>TrimSuffix\<close> removes it.
\<close>

theorem slash_removed_by_space_counterexample:
  "notMatcher 32 (sm_string (sm (accepted_engine 32)))
   \<and> line (accepted_engine 32) ! nat (cursor (accepted_engine 32) - 1) = 47
   \<and> caller (accepted_engine 32) = [32]
   \<and> TrimSuffix (accepted_engine 32) =
       Inr ((accepted_engine 32)
              \<lparr>cursor := 13,
               line := [99, 100, 32, 47, 117, 115, 114, 47, 108, 111, 99, 97, 108]\<rparr>)"
  by (simp add: accepted_engine_def Candidate_zero_def TrimSuffix_def Line_Len_def Space_def
        notMatcher_def first_size_def IsSpace_def Cursor_Dec_def Line_CutRune_def Matches_def)

section \<open>Accepting, previewing and cancelling a candidate\<close>

text \<open>The state that \<open>acceptCandidate\<close> returns once \<open>prepareSuffix\<close> has returned.\<close>

lemma acceptCandidate_eq:
  assumes g: "currentGroup e = Some cur"
    and p: "prepareSuffix (e\<lparr>selected := group_selected cur\<rparr>)
              = Inr (c, e\<lparr>selected := group_selected cur, sm := m\<rparr>)"
    and l: "length (prefix e) \<le> length c"
  shows "acceptCandidate e =
     Inr (e\<lparr>selected := group_selected cur, sm := m,
            line := Line_Insert
                      (Line_Insert
                         (Line_Cut (line e) (cursor e) (cursor e + int (length (suffix e))))
                         (cursor e) (runes_of_string (drop (length (prefix e)) c)))
                      (cursor e + int (length (runes_of_string (drop (length (prefix e)) c))))
                      (runes_of_string (suffix e)),
            cursor := cursor e + int (length (runes_of_string (drop (length (prefix e)) c))),
            inserted := [], prefix := '''', suffix := ''''\<rparr>)"
  using g p l
  by (simp add: acceptCandidate_def set_inserted_def Cursor_InsertAt_def Let_def)

text \<open>The state that \<open>insertCandidate\<close> returns once \<open>prepareSuffix\<close> has returned.\<close>

lemma insertCandidate_eq:
  assumes g: "currentGroup e = Some grp"
    and p: "prepareSuffix (e\<lparr>selected := group_selected grp\<rparr>)
              = Inr (c, e\<lparr>selected := group_selected grp, sm := m\<rparr>)"
    and l: "length (prefix e) \<le> length (Value (group_selected grp))"
           "length (prefix e) \<le> length c"
  shows "insertCandidate e =
     Inr (e\<lparr>selected := group_selected grp, sm := m,
            inserted := runes_of_string (drop (length (prefix e)) c),
            compLine := Some
              (Line_Insert
                 (Line_Insert
                    (Line_Cut (runes_of_string (string_of_runes (line e)))
                       (Cursor_Set (runes_of_string (string_of_runes (line e))) (cursor e))
                       (Cursor_Set (runes_of_string (string_of_runes (line e))) (cursor e)
                        + int (length (suffix e))))
                    (Cursor_Set (runes_of_string (string_of_runes (line e))) (cursor e))
                    (runes_of_string (drop (length (prefix e)) c)))
                 (Cursor_Set (runes_of_string (string_of_runes (line e))) (cursor e)
                  + int (length (runes_of_string (drop (length (prefix e)) c))))
                 (runes_of_string (suffix e))),
            compCursor := Some
              (Cursor_Set (runes_of_string (string_of_runes (line e))) (cursor e)
               + int (length (runes_of_string (drop (length (prefix e)) c))))\<rparr>)"
  using g p l
  by (simp add: insertCandidate_def set_inserted_def Cursor_InsertAt_def Let_def)

lemma prepareSuffix_selected:
  assumes "currentGroup e = Some cur"
    and "prepareSuffix (e\<lparr>selected := group_selected cur\<rparr>) = Inr r"
  shows "\<exists>m. r = (Value (group_selected cur), e\<lparr>selected := group_selected cur, sm := m\<rparr>)"
proof -
  obtain c e' where r: "r = (c, e')" by (cases r)
  have "currentGroup (e\<lparr>selected := group_selected cur\<rparr>) = Some cur" using assms(1) by simp
  from prepareSuffix_result [OF this assms(2) [unfolded r]] show ?thesis using r by auto
qed

lemma acceptCandidate_Inr:
  assumes g: "currentGroup e = Some cur" and a: "acceptCandidate e = Inr e'"
  shows "\<exists>m. prepareSuffix (e\<lparr>selected := group_selected cur\<rparr>)
               = Inr (Value (group_selected cur), e\<lparr>selected := group_selected cur, sm := m\<rparr>)
             \<and> length (prefix e) \<le> length (Value (group_selected cur))"
proof (cases "prepareSuffix (e\<lparr>selected := group_selected cur\<rparr>)")
  case (Inl err)
  then show ?thesis using g a by (simp add: acceptCandidate_def)
next
  case (Inr r)
  from prepareSuffix_selected [OF g Inr] obtain m where
    r: "r = (Value (group_selected cur), e\<lparr>selected := group_selected cur, sm := m\<rparr>)" by blast
  have "length (prefix e) \<le> length (Value (group_selected cur))"
    using g a Inr r by (auto simp: acceptCandidate_def set_inserted_def split: if_splits)
  then show ?thesis using Inr r by blast
qed

lemma insertCandidate_Inr:
  assumes g: "currentGroup e = Some grp"
    and l: "length (prefix e) \<le> length (Value (group_selected grp))"
    and a: "insertCandidate e = Inr e'"
  shows "\<exists>m. prepareSuffix (e\<lparr>selected := group_selected grp\<rparr>)
               = Inr (Value (group_selected grp), e\<lparr>selected := group_selected grp, sm := m\<rparr>)"
proof (cases "prepareSuffix (e\<lparr>selected := group_selected grp\<rparr>)")
  case (Inl err)
  then show ?thesis using g l a by (simp add: insertCandidate_def Let_def)
next
  case (Inr r)
  from prepareSuffix_selected [OF g Inr] show ?thesis using Inr by auto
qed

lemma insertCandidate_returns:
  assumes g: "currentGroup e = Some grp"
    and l: "length (prefix e) \<le> length (Value (group_selected grp))"
    and c: "Value (group_selected grp) \<noteq> []"
      "1 < int (length (Value (group_selected grp))) - int (length (prefix e))
         \<longrightarrow> caller e \<noteq> []"
  shows "\<exists>e1. insertCandidate e = Inr e1"
proof -
  let ?e0 = "e\<lparr>selected := group_selected grp\<rparr>"
  have "\<exists>m. prepareSuffix ?e0 = Inr (Value (selected ?e0), ?e0\<lparr>sm := m\<rparr>)"
    using prepareSuffix_returns [of ?e0 grp] g l c by simp
  then obtain m where
    "prepareSuffix ?e0
       = Inr (Value (group_selected grp), e\<lparr>selected := group_selected grp, sm := m\<rparr>)"
    by auto
  from insertCandidate_eq [OF g this l l] show ?thesis by blast
qed

text \<open>
  C4. With a current group whose selected candidate is \<open>c\<close>, the prefix \<open>p\<close> and the suffix
  \<open>s\<close>, every state that \<open>acceptCandidate\<close> returns has as its line the line of the call
  with the range \<open>[cursor, cursor + len(s))\<close> cut, the runes of \<open>c\<close> without its first
  \<open>len(p)\<close> bytes inserted at the cursor and the runes of \<open>s\<close> inserted after them; the
  cursor has advanced by the number of inserted runes, and \<open>inserted\<close>, \<open>prefix\<close> and
  \<open>suffix\<close> are empty. \<open>acceptCandidate\<close> does return when \<open>c\<close> is not empty, \<open>p\<close> is not
  longer than \<open>c\<close> and, if more than one byte of \<open>c\<close> remains after \<open>p\<close>, a calling key
  exists.
\<close>

theorem acceptCandidate_steps:
  assumes "currentGroup e = Some cur"
  shows "(\<forall>e'. acceptCandidate e = Inr e' \<longrightarrow>
            line e' =
              Line_Insert
                (Line_Insert
                   (Line_Cut (line e) (cursor e) (cursor e + int (length (suffix e))))
                   (cursor e)
                   (runes_of_string (drop (length (prefix e)) (Value (group_selected cur)))))
                (cursor e + int (length (runes_of_string
                                   (drop (length (prefix e)) (Value (group_selected cur))))))
                (runes_of_string (suffix e))
            \<and> cursor e' = cursor e + int (length (runes_of_string
                                   (drop (length (prefix e)) (Value (group_selected cur)))))
            \<and> inserted e' = [] \<and> prefix e' = [] \<and> suffix e' = []
            \<and> selected e' = group_selected cur)
       \<and> (Value (group_selected cur) \<noteq> []
            \<and> length (prefix e) \<le> length (Value (group_selected cur))
            \<and> (1 < int (length (Value (group_selected cur))) - int (length (prefix e))
                 \<longrightarrow> caller e \<noteq> [])
          \<longrightarrow> (\<exists>e'. acceptCandidate e = Inr e'))"
proof (rule conjI)
  show "\<forall>e'. acceptCandidate e = Inr e' \<longrightarrow>
            line e' =
              Line_Insert
                (Line_Insert
                   (Line_Cut (line e) (cursor e) (cursor e + int (length (suffix e))))
                   (cursor e)
                   (runes_of_string (drop (length (prefix e)) (Value (group_selected cur)))))
                (cursor e + int (length (runes_of_string
                                   (drop (length (prefix e)) (Value (group_selected cur))))))
                (runes_of_string (suffix e))
            \<and> cursor e' = cursor e + int (length (runes_of_string
                                   (drop (length (prefix e)) (Value (group_selected cur)))))
            \<and> inserted e' = [] \<and> prefix e' = [] \<and> suffix e' = []
            \<and> selected e' = group_selected cur"
  proof (intro allI impI)
  fix e'
  assume a: "acceptCandidate e = Inr e'"
  from acceptCandidate_Inr [OF assms a] obtain m where
    p: "prepareSuffix (e\<lparr>selected := group_selected cur\<rparr>)
          = Inr (Value (group_selected cur), e\<lparr>selected := group_selected cur, sm := m\<rparr>)"
    and l: "length (prefix e) \<le> length (Value (group_selected cur))" by blast
  from acceptCandidate_eq [OF assms p l] a
  show "line e' =
              Line_Insert
                (Line_Insert
                   (Line_Cut (line e) (cursor e) (cursor e + int (length (suffix e))))
                   (cursor e)
                   (runes_of_string (drop (length (prefix e)) (Value (group_selected cur)))))
                (cursor e + int (length (runes_of_string
                                   (drop (length (prefix e)) (Value (group_selected cur))))))
                (runes_of_string (suffix e))
            \<and> cursor e' = cursor e + int (length (runes_of_string
                                   (drop (length (prefix e)) (Value (group_selected cur)))))
            \<and> inserted e' = [] \<and> prefix e' = [] \<and> suffix e' = []
            \<and> selected e' = group_selected cur"
    by auto
  qed
next
  show "Value (group_selected cur) \<noteq> []
            \<and> length (prefix e) \<le> length (Value (group_selected cur))
            \<and> (1 < int (length (Value (group_selected cur))) - int (length (prefix e))
                 \<longrightarrow> caller e \<noteq> [])
          \<longrightarrow> (\<exists>e'. acceptCandidate e = Inr e')"
  proof
  assume c: "Value (group_selected cur) \<noteq> []
            \<and> length (prefix e) \<le> length (Value (group_selected cur))
            \<and> (1 < int (length (Value (group_selected cur))) - int (length (prefix e))
                 \<longrightarrow> caller e \<noteq> [])"
  have "\<exists>m. prepareSuffix (e\<lparr>selected := group_selected cur\<rparr>)
          = Inr (Value (selected (e\<lparr>selected := group_selected cur\<rparr>)),
                 e\<lparr>selected := group_selected cur\<rparr>\<lparr>sm := m\<rparr>)"
    using prepareSuffix_returns [of "e\<lparr>selected := group_selected cur\<rparr>" cur] assms c by simp
  then obtain m where
    "prepareSuffix (e\<lparr>selected := group_selected cur\<rparr>)
       = Inr (Value (group_selected cur), e\<lparr>selected := group_selected cur, sm := m\<rparr>)"
    by auto
  from acceptCandidate_eq [OF assms this] c show "\<exists>e'. acceptCandidate e = Inr e'" by blast
  qed
qed

theorem acceptCandidate_steps_witness:
  "currentGroup local_engine = Some local_group
   \<and> Value (group_selected local_group) \<noteq> []
   \<and> length (prefix local_engine) \<le> length (Value (group_selected local_group))
   \<and> caller local_engine \<noteq> []
   \<and> (\<exists>e'. acceptCandidate local_engine = Inr e'
          \<and> line e' = [99, 100, 32, 47, 117, 115, 114, 47, 108, 111, 99, 97, 108, 47]
          \<and> cursor e' = 14 \<and> inserted e' = [] \<and> prefix e' = [] \<and> suffix e' = [])"
proof -
  have g: "currentGroup local_engine = Some local_group" by (simp add: local_engine_def)
  have c: "Value (group_selected local_group) \<noteq> []"
    "length (prefix local_engine) \<le> length (Value (group_selected local_group))"
    "caller local_engine \<noteq> []"
    by (simp_all add: local_engine_def local_group_def local_candidate_def)
  have v: "runes_of_string (drop (length (prefix local_engine))
                             (Value (group_selected local_group))) = [97, 108, 47]"
    by (simp add: local_engine_def local_group_def local_candidate_def first_size_def)
  have s: "suffix local_engine = []" "cursor local_engine = 11"
    "line local_engine = [99, 100, 32, 47, 117, 115, 114, 47, 108, 111, 99]"
    by (simp_all add: local_engine_def)
  have l: "Line_Insert
             (Line_Insert (Line_Cut [99, 100, 32, 47, 117, 115, 114, 47, 108, 111, 99] 11 11)
                11 [97, 108, 47]) 14 []
           = [99, 100, 32, 47, 117, 115, 114, 47, 108, 111, 99, 97, 108, 47]"
    by (simp add: Line_Insert_def Line_Cut_def clamp_pos_def)
  from acceptCandidate_steps [OF g] c obtain e' where
    a: "acceptCandidate local_engine = Inr e'" by blast
  with acceptCandidate_steps [OF g] have
    "line e' = [99, 100, 32, 47, 117, 115, 114, 47, 108, 111, 99, 97, 108, 47]
     \<and> cursor e' = 14 \<and> inserted e' = [] \<and> prefix e' = [] \<and> suffix e' = []"
    using v s l by simp
  then show ?thesis using g c a by blast
qed

lemma Cursor_Set_inside:
  assumes "0 \<le> c" "c \<le> Line_Len l"
  shows "Cursor_Set l c = c"
  using assms by (simp add: Cursor_Set_def Line_Len_def)

text \<open>The preview that \<open>insertCandidate\<close> builds on a line of Unicode scalar values with
  the cursor inside it.\<close>

lemma insertCandidate_preview:
  assumes v: "\<forall>r\<in>set (line e). valid_rune r"
    and wf: "0 \<le> cursor e" "cursor e \<le> Line_Len (line e)"
    and g: "currentGroup e = Some grp"
    and l: "length (prefix e) \<le> length (Value (group_selected grp))"
    and i: "insertCandidate e = Inr e1"
  shows "\<exists>m. e1 = e\<lparr>selected := group_selected grp, sm := m,
            inserted := runes_of_string (drop (length (prefix e)) (Value (group_selected grp))),
            compLine := Some
              (Line_Insert
                 (Line_Insert
                    (Line_Cut (line e) (cursor e) (cursor e + int (length (suffix e))))
                    (cursor e)
                    (runes_of_string (drop (length (prefix e)) (Value (group_selected grp)))))
                 (cursor e + int (length (runes_of_string
                                    (drop (length (prefix e)) (Value (group_selected grp))))))
                 (runes_of_string (suffix e))),
            compCursor := Some
              (cursor e + int (length (runes_of_string
                                  (drop (length (prefix e)) (Value (group_selected grp))))))\<rparr>"
proof -
  from insertCandidate_Inr [OF g l i] obtain m where
    p: "prepareSuffix (e\<lparr>selected := group_selected grp\<rparr>)
          = Inr (Value (group_selected grp), e\<lparr>selected := group_selected grp, sm := m\<rparr>)"
    by blast
  have rt: "runes_of_string (string_of_runes (line e)) = line e"
    using v by (rule runes_of_string_of_runes)
  have cs: "Cursor_Set (line e) (cursor e) = cursor e"
    using wf by (rule Cursor_Set_inside)
  from insertCandidate_eq [OF g p l l] i show ?thesis
    unfolding rt cs by auto
qed

text \<open>
  C1. Let the line hold Unicode scalar values, the cursor be inside it, and a preview be
  entered: there is a current group, its selected candidate is not shorter than the
  prefix, and \<open>insertCandidate\<close> returns. Then \<open>acceptCandidate\<close>, run on the state that
  \<open>insertCandidate\<close> returned, called by the same keys or by any other key, returns too,
  and the real line after it is exactly the shadow line before it (and the real cursor
  the shadow cursor). \<open>insertCandidate\<close> does return when the candidate is not empty and,
  if more than one byte of it remains after the prefix, a calling key exists.
\<close>

theorem accept_equals_preview:
  assumes "\<forall>r\<in>set (line e). valid_rune r"
    and "0 \<le> cursor e" "cursor e \<le> Line_Len (line e)"
    and "currentGroup e = Some grp"
    and "length (prefix e) \<le> length (Value (group_selected grp))"
  shows "(\<forall>e1 ks. insertCandidate e = Inr e1 \<and> (ks = caller e1 \<or> ks \<noteq> []) \<longrightarrow>
            (\<exists>e2. acceptCandidate (e1\<lparr>caller := ks\<rparr>) = Inr e2
                  \<and> compLine e1 = Some (line e2) \<and> compCursor e1 = Some (cursor e2)))
       \<and> (Value (group_selected grp) \<noteq> []
            \<and> (1 < int (length (Value (group_selected grp))) - int (length (prefix e))
                 \<longrightarrow> caller e \<noteq> [])
          \<longrightarrow> (\<exists>e1. insertCandidate e = Inr e1))"
proof (rule conjI)
  show "\<forall>e1 ks. insertCandidate e = Inr e1 \<and> (ks = caller e1 \<or> ks \<noteq> []) \<longrightarrow>
            (\<exists>e2. acceptCandidate (e1\<lparr>caller := ks\<rparr>) = Inr e2
                  \<and> compLine e1 = Some (line e2) \<and> compCursor e1 = Some (cursor e2))"
  proof (intro allI impI)
    fix e1 ks
    assume ik: "insertCandidate e = Inr e1 \<and> (ks = caller e1 \<or> ks \<noteq> [])"
    then have i: "insertCandidate e = Inr e1" by simp
    let ?c = "Value (group_selected grp)"
    let ?e0 = "e\<lparr>selected := group_selected grp\<rparr>"
    from insertCandidate_Inr [OF assms(4,5) i] have "\<exists>r. prepareSuffix ?e0 = Inr r" by blast
    moreover have g0: "currentGroup ?e0 = Some grp" using assms(4) by simp
    ultimately have cond: "?c \<noteq> [] \<and> length (prefix e) \<le> length ?c
        \<and> (1 < int (length ?c) - int (length (prefix e)) \<longrightarrow> caller e \<noteq> [])"
      using prepareSuffix_returns_iff [OF g0] by simp
    from insertCandidate_preview [OF assms i] obtain m where
      e1: "e1 = e\<lparr>selected := group_selected grp, sm := m,
            inserted := runes_of_string (drop (length (prefix e)) ?c),
            compLine := Some
              (Line_Insert
                 (Line_Insert
                    (Line_Cut (line e) (cursor e) (cursor e + int (length (suffix e))))
                    (cursor e) (runes_of_string (drop (length (prefix e)) ?c)))
                 (cursor e + int (length (runes_of_string (drop (length (prefix e)) ?c))))
                 (runes_of_string (suffix e))),
            compCursor := Some
              (cursor e + int (length (runes_of_string (drop (length (prefix e)) ?c))))\<rparr>"
      by blast
    let ?a = "e1\<lparr>caller := ks\<rparr>"
    have f: "line ?a = line e" "cursor ?a = cursor e" "prefix ?a = prefix e"
      "suffix ?a = suffix e" "currentGroup ?a = Some grp"
      using e1 assms(4) by simp_all
    have ce: "caller e1 = caller e" using e1 by simp
    have k: "1 < int (length ?c) - int (length (prefix e)) \<longrightarrow> ks \<noteq> []"
      using ik cond ce by auto
    let ?a' = "?a\<lparr>selected := group_selected grp\<rparr>"
    have "\<exists>m'. prepareSuffix ?a' = Inr (Value (selected ?a'), ?a'\<lparr>sm := m'\<rparr>)"
      using prepareSuffix_returns [of ?a' grp] cond f k by simp
    then obtain m' where
      p': "prepareSuffix ?a' = Inr (?c, ?a\<lparr>selected := group_selected grp, sm := m'\<rparr>)"
      by auto
    have l': "length (prefix ?a) \<le> length ?c" using f assms(5) by simp
    from acceptCandidate_eq [OF f(5) p' l']
    obtain e2 where a: "acceptCandidate ?a = Inr e2"
      and l2: "line e2 =
                 Line_Insert
                   (Line_Insert
                      (Line_Cut (line ?a) (cursor ?a) (cursor ?a + int (length (suffix ?a))))
                      (cursor ?a) (runes_of_string (drop (length (prefix ?a)) ?c)))
                   (cursor ?a + int (length (runes_of_string (drop (length (prefix ?a)) ?c))))
                   (runes_of_string (suffix ?a))"
      and c2: "cursor e2 = cursor ?a
                 + int (length (runes_of_string (drop (length (prefix ?a)) ?c)))"
      by simp
    have "compLine e1 = Some (line e2)" unfolding l2 f by (simp add: e1)
    moreover have "compCursor e1 = Some (cursor e2)" unfolding c2 f by (simp add: e1)
    ultimately show "\<exists>e2. acceptCandidate ?a = Inr e2 \<and> compLine e1 = Some (line e2)
                  \<and> compCursor e1 = Some (cursor e2)"
      using a by blast
  qed
next
  show "Value (group_selected grp) \<noteq> []
            \<and> (1 < int (length (Value (group_selected grp))) - int (length (prefix e))
                 \<longrightarrow> caller e \<noteq> [])
          \<longrightarrow> (\<exists>e1. insertCandidate e = Inr e1)"
  proof
    assume c: "Value (group_selected grp) \<noteq> []
            \<and> (1 < int (length (Value (group_selected grp))) - int (length (prefix e))
                 \<longrightarrow> caller e \<noteq> [])"
    then show "\<exists>e1. insertCandidate e = Inr e1"
      using insertCandidate_returns [OF assms(4,5)] by blast
  qed
qed

theorem accept_equals_preview_witness:
  "list_all valid_rune (line local_engine)
   \<and> 0 \<le> cursor local_engine \<and> cursor local_engine \<le> Line_Len (line local_engine)
   \<and> currentGroup local_engine = Some local_group
   \<and> length (prefix local_engine) \<le> length (Value (group_selected local_group))
   \<and> Value (group_selected local_group) \<noteq> [] \<and> caller local_engine \<noteq> []
   \<and> (\<exists>e1 e2. insertCandidate local_engine = Inr e1
          \<and> acceptCandidate (e1\<lparr>caller := [13]\<rparr>) = Inr e2
          \<and> compLine e1 = Some (line e2) \<and> compCursor e1 = Some (cursor e2))"
proof -
  have v: "list_all valid_rune (line local_engine)"
    by (simp add: local_engine_def valid_rune_def)
  then have v': "\<forall>r\<in>set (line local_engine). valid_rune r" by (simp add: list_all_iff)
  have h: "0 \<le> cursor local_engine" "cursor local_engine \<le> Line_Len (line local_engine)"
    "currentGroup local_engine = Some local_group"
    "length (prefix local_engine) \<le> length (Value (group_selected local_group))"
    by (simp_all add: local_engine_def local_group_def local_candidate_def Line_Len_def)
  have c: "Value (group_selected local_group) \<noteq> []" "caller local_engine \<noteq> []"
    by (simp_all add: local_engine_def local_group_def local_candidate_def)
  note T = accept_equals_preview [OF v' h]
  from T c obtain e1 where i: "insertCandidate local_engine = Inr e1" by blast
  have "insertCandidate local_engine = Inr e1 \<and> ([13] = caller e1 \<or> [13::rune] \<noteq> [])"
    using i by simp
  with T obtain e2 where "acceptCandidate (e1\<lparr>caller := [13]\<rparr>) = Inr e2"
    "compLine e1 = Some (line e2)" "compCursor e1 = Some (cursor e2)" by blast
  then show ?thesis using v h c i by blast
qed

text \<open>
  C3. Let the cursor be inside the line and a preview be entered: there is a current
  group and its selected candidate is not shorter than the prefix. On every state that
  \<open>insertCandidate\<close> returns, \<open>cancelCompletedLine\<close> returns a state whose shadow line is
  the real line, whose shadow cursor is the real cursor and whose selected candidate is
  the empty candidate; the real line and cursor are those before the preview.
  \<open>insertCandidate\<close> does return when the candidate is not empty and, if more than one
  byte of it remains after the prefix, a calling key exists.
\<close>

theorem preview_then_cancel:
  assumes "0 \<le> cursor e" "cursor e \<le> Line_Len (line e)"
    and "currentGroup e = Some grp"
    and "length (prefix e) \<le> length (Value (group_selected grp))"
  shows "(\<forall>e1. insertCandidate e = Inr e1 \<longrightarrow>
            (\<exists>e2. cancelCompletedLine e1 = Inr e2
                  \<and> compLine e2 = Some (line e2) \<and> line e2 = line e
                  \<and> compCursor e2 = Some (cursor e2) \<and> cursor e2 = cursor e
                  \<and> selected e2 = Candidate_zero))
       \<and> (Value (group_selected grp) \<noteq> []
            \<and> (1 < int (length (Value (group_selected grp))) - int (length (prefix e))
                 \<longrightarrow> caller e \<noteq> [])
          \<longrightarrow> (\<exists>e1. insertCandidate e = Inr e1))"
proof (rule conjI)
  show "\<forall>e1. insertCandidate e = Inr e1 \<longrightarrow>
            (\<exists>e2. cancelCompletedLine e1 = Inr e2
                  \<and> compLine e2 = Some (line e2) \<and> line e2 = line e
                  \<and> compCursor e2 = Some (cursor e2) \<and> cursor e2 = cursor e
                  \<and> selected e2 = Candidate_zero)"
  proof (intro allI impI)
    fix e1
    assume i: "insertCandidate e = Inr e1"
    from insertCandidate_Inr [OF assms(3,4) i] obtain m where
      p: "prepareSuffix (e\<lparr>selected := group_selected grp\<rparr>)
            = Inr (Value (group_selected grp), e\<lparr>selected := group_selected grp, sm := m\<rparr>)"
      by blast
    from insertCandidate_eq [OF assms(3) p assms(4) assms(4)] i
    obtain cl cc where e1: "compLine e1 = Some cl" "compCursor e1 = Some cc"
      "line e1 = line e" "cursor e1 = cursor e"
      by auto
    have cs: "Cursor_Set (line e) (cursor e) = cursor e"
      using assms(1,2) by (rule Cursor_Set_inside)
    have "cancelCompletedLine e1 =
            Inr (e1\<lparr>compLine := Some (line e), compCursor := Some (cursor e),
                    selected := Candidate_zero\<rparr>)"
      using e1 cs by (simp add: cancelCompletedLine_def Line_Set_def)
    then show "\<exists>e2. cancelCompletedLine e1 = Inr e2
                  \<and> compLine e2 = Some (line e2) \<and> line e2 = line e
                  \<and> compCursor e2 = Some (cursor e2) \<and> cursor e2 = cursor e
                  \<and> selected e2 = Candidate_zero"
      using e1 by simp
  qed
next
  show "Value (group_selected grp) \<noteq> []
            \<and> (1 < int (length (Value (group_selected grp))) - int (length (prefix e))
                 \<longrightarrow> caller e \<noteq> [])
          \<longrightarrow> (\<exists>e1. insertCandidate e = Inr e1)"
  proof
    assume c: "Value (group_selected grp) \<noteq> []
            \<and> (1 < int (length (Value (group_selected grp))) - int (length (prefix e))
                 \<longrightarrow> caller e \<noteq> [])"
    then show "\<exists>e1. insertCandidate e = Inr e1"
      using insertCandidate_returns [OF assms(3,4)] by blast
  qed
qed

theorem preview_then_cancel_witness:
  "0 \<le> cursor two_engine \<and> cursor two_engine \<le> Line_Len (line two_engine)
   \<and> currentGroup two_engine = Some two_group
   \<and> length (prefix two_engine) \<le> length (Value (group_selected two_group))
   \<and> Value (group_selected two_group) \<noteq> [] \<and> caller two_engine \<noteq> []
   \<and> (\<exists>e1 e2. insertCandidate two_engine = Inr e1 \<and> cancelCompletedLine e1 = Inr e2
          \<and> compLine e2 = Some [99, 100, 32, 47, 117, 115, 114, 47, 108, 111, 99]
          \<and> compCursor e2 = Some 11 \<and> selected e2 = Candidate_zero)"
proof -
  have h: "0 \<le> cursor two_engine" "cursor two_engine \<le> Line_Len (line two_engine)"
    "currentGroup two_engine = Some two_group"
    "length (prefix two_engine) \<le> length (Value (group_selected two_group))"
    by (simp_all add: two_engine_def local_engine_def two_group_def local_candidate_def
          Line_Len_def)
  have c: "Value (group_selected two_group) \<noteq> []" "caller two_engine \<noteq> []"
    by (simp_all add: two_engine_def local_engine_def two_group_def local_candidate_def)
  have l: "line two_engine = [99, 100, 32, 47, 117, 115, 114, 47, 108, 111, 99]"
    "cursor two_engine = 11"
    by (simp_all add: two_engine_def local_engine_def)
  from preview_then_cancel [OF h] c
  obtain e1 where i: "insertCandidate two_engine = Inr e1" by blast
  with preview_then_cancel [OF h]
  obtain e2 where "cancelCompletedLine e1 = Inr e2" "compLine e2 = Some (line e2)"
    "line e2 = line two_engine" "compCursor e2 = Some (cursor e2)"
    "cursor e2 = cursor two_engine" "selected e2 = Candidate_zero" by blast
  then show ?thesis using h c i l by auto
qed

section \<open>Refreshing the line\<close>

lemma insertCandidate_real_line:
  assumes "insertCandidate e = Inr e'"
  shows "line e' = line e \<and> cursor e' = cursor e \<and> groups e' = groups e"
proof (cases "currentGroup e")
  case None
  then show ?thesis using assms by (simp add: insertCandidate_def)
next
  case (Some grp)
  show ?thesis
  proof (cases "length (Value (group_selected grp)) < length (prefix e)")
    case True
    then show ?thesis using assms Some by (auto simp: insertCandidate_def Let_def)
  next
    case False
    then have l: "length (prefix e) \<le> length (Value (group_selected grp))" by simp
    from insertCandidate_Inr [OF Some l assms] obtain m where
      "prepareSuffix (e\<lparr>selected := group_selected grp\<rparr>)
         = Inr (Value (group_selected grp), e\<lparr>selected := group_selected grp, sm := m\<rparr>)"
      by blast
    from insertCandidate_eq [OF Some this l l] assms show ?thesis by auto
  qed
qed

lemma acceptCandidate_shadow:
  assumes "currentGroup e = Some cur" "acceptCandidate e = Inr e'"
  shows "compLine e' = compLine e \<and> compCursor e' = compCursor e \<and> autoForce e' = autoForce e"
proof -
  from acceptCandidate_Inr [OF assms] obtain m where
    p: "prepareSuffix (e\<lparr>selected := group_selected cur\<rparr>)
          = Inr (Value (group_selected cur), e\<lparr>selected := group_selected cur, sm := m\<rparr>)"
    and l: "length (prefix e) \<le> length (Value (group_selected cur))" by blast
  from acceptCandidate_eq [OF assms(1) p l] assms(2) show ?thesis by auto
qed

lemma refreshLine_unique:
  assumes "\<not> noCompletions e" "currentGroup e = Some cur" "hasUniqueCandidate e"
  shows "refreshLine e =
           (case acceptCandidate e of
              Inl err \<Rightarrow> Inl err
            | Inr e1 \<Rightarrow> Inr (e1\<lparr>groups := [], currentGroup := None, autoForce := False\<rparr>))"
  using assms
  by (simp add: refreshLine_def ClearMenu_def ResetForce_def split: sum.splits)

lemma refreshLine_unique_result:
  assumes "\<not> noCompletions e" "currentGroup e = Some cur" "hasUniqueCandidate e"
    and e': "refreshLine e = Inr e'"
  shows "(\<exists>e1. acceptCandidate e = Inr e1
            \<and> e' = e1\<lparr>groups := [], currentGroup := None, autoForce := False\<rparr>)
         \<and> groups e' = []
         \<and> compLine e' = compLine e \<and> compCursor e' = compCursor e"
proof -
  note r = refreshLine_unique [OF assms(1-3)]
  obtain e1 where e1: "acceptCandidate e = Inr e1"
    and eq: "e' = e1\<lparr>groups := [], currentGroup := None, autoForce := False\<rparr>"
    using e' unfolding r by (cases "acceptCandidate e") simp_all
  from acceptCandidate_shadow [OF assms(2) e1]
  have c: "compLine e1 = compLine e" "compCursor e1 = compCursor e" by simp_all
  have g: "groups e' = []" "compLine e' = compLine e1" "compCursor e' = compCursor e1"
    unfolding eq by simp_all
  show ?thesis using e1 eq g c by simp
qed

lemma refreshLine_unique_accept:
  assumes "\<not> noCompletions e" "currentGroup e = Some cur" "hasUniqueCandidate e"
    and "acceptCandidate e = Inr e1"
  shows "refreshLine e = Inr (e1\<lparr>groups := [], currentGroup := None, autoForce := False\<rparr>)"
  using refreshLine_unique [OF assms(1-3)] assms(4) by simp

lemma refreshLine_other:
  assumes "\<not> noCompletions e" "currentGroup e = Some cur" "\<not> hasUniqueCandidate e"
  shows "refreshLine e = insertCandidate e"
  using assms by (simp add: refreshLine_def)

text \<open>
  C5. Let \<open>refreshLine\<close> run with a candidate in some group and a current group. If
  exactly one candidate exists across all groups, every state it returns is the state
  that \<open>acceptCandidate\<close> returns with the menu cleared: the real line and cursor are
  those of the acceptance, no group is left, and the shadow line and cursor are those of
  before, so nothing was inserted virtually. In every other case \<open>refreshLine\<close> does
  what \<open>insertCandidate\<close> does, and every state it returns has the real line, the real
  cursor and the groups of before.
\<close>

theorem refreshLine_accepts_unique_candidate:
  assumes "\<not> noCompletions e" "currentGroup e = Some cur"
  shows "(hasUniqueCandidate e \<longrightarrow>
            (\<forall>e'. refreshLine e = Inr e' \<longrightarrow>
               (\<exists>e1. acceptCandidate e = Inr e1
                     \<and> e' = e1\<lparr>groups := [], currentGroup := None, autoForce := False\<rparr>)
               \<and> groups e' = []
               \<and> compLine e' = compLine e \<and> compCursor e' = compCursor e)
            \<and> (\<forall>e1. acceptCandidate e = Inr e1 \<longrightarrow>
                 refreshLine e
                   = Inr (e1\<lparr>groups := [], currentGroup := None, autoForce := False\<rparr>)))
       \<and> (\<not> hasUniqueCandidate e \<longrightarrow>
            refreshLine e = insertCandidate e
            \<and> (\<forall>e'. refreshLine e = Inr e' \<longrightarrow>
                 line e' = line e \<and> cursor e' = cursor e \<and> groups e' = groups e))"
proof (rule conjI)
  show "hasUniqueCandidate e \<longrightarrow>
            (\<forall>e'. refreshLine e = Inr e' \<longrightarrow>
               (\<exists>e1. acceptCandidate e = Inr e1
                     \<and> e' = e1\<lparr>groups := [], currentGroup := None, autoForce := False\<rparr>)
               \<and> groups e' = []
               \<and> compLine e' = compLine e \<and> compCursor e' = compCursor e)
            \<and> (\<forall>e1. acceptCandidate e = Inr e1 \<longrightarrow>
                 refreshLine e
                   = Inr (e1\<lparr>groups := [], currentGroup := None, autoForce := False\<rparr>))"
  proof
    assume u: "hasUniqueCandidate e"
    have a: "\<forall>e'. refreshLine e = Inr e' \<longrightarrow>
               (\<exists>e1. acceptCandidate e = Inr e1
                     \<and> e' = e1\<lparr>groups := [], currentGroup := None, autoForce := False\<rparr>)
               \<and> groups e' = []
               \<and> compLine e' = compLine e \<and> compCursor e' = compCursor e"
      using refreshLine_unique_result [OF assms u] by blast
    have b: "\<forall>e1. acceptCandidate e = Inr e1 \<longrightarrow>
                 refreshLine e
                   = Inr (e1\<lparr>groups := [], currentGroup := None, autoForce := False\<rparr>)"
      using refreshLine_unique_accept [OF assms u] by blast
    show "(\<forall>e'. refreshLine e = Inr e' \<longrightarrow>
               (\<exists>e1. acceptCandidate e = Inr e1
                     \<and> e' = e1\<lparr>groups := [], currentGroup := None, autoForce := False\<rparr>)
               \<and> groups e' = []
               \<and> compLine e' = compLine e \<and> compCursor e' = compCursor e)
            \<and> (\<forall>e1. acceptCandidate e = Inr e1 \<longrightarrow>
                 refreshLine e
                   = Inr (e1\<lparr>groups := [], currentGroup := None, autoForce := False\<rparr>))"
      using a b by (rule conjI)
  qed
next
  show "\<not> hasUniqueCandidate e \<longrightarrow>
            refreshLine e = insertCandidate e
            \<and> (\<forall>e'. refreshLine e = Inr e' \<longrightarrow>
                 line e' = line e \<and> cursor e' = cursor e \<and> groups e' = groups e)"
  proof
    assume u: "\<not> hasUniqueCandidate e"
    have r: "refreshLine e = insertCandidate e"
      using refreshLine_other [OF assms u] .
    have k: "\<forall>e'. refreshLine e = Inr e' \<longrightarrow>
                 line e' = line e \<and> cursor e' = cursor e \<and> groups e' = groups e"
      unfolding r using insertCandidate_real_line [of e] by blast
    show "refreshLine e = insertCandidate e
            \<and> (\<forall>e'. refreshLine e = Inr e' \<longrightarrow>
                 line e' = line e \<and> cursor e' = cursor e \<and> groups e' = groups e)"
      using r k by (rule conjI)
  qed
qed

theorem refreshLine_accepts_unique_candidate_witness:
  "\<not> noCompletions local_engine \<and> currentGroup local_engine = Some local_group
   \<and> hasUniqueCandidate local_engine
   \<and> (\<exists>e'. refreshLine local_engine = Inr e'
          \<and> line e' = [99, 100, 32, 47, 117, 115, 114, 47, 108, 111, 99, 97, 108, 47]
          \<and> cursor e' = 14 \<and> groups e' = [] \<and> compLine e' = None)
   \<and> \<not> noCompletions two_engine \<and> currentGroup two_engine = Some two_group
   \<and> \<not> hasUniqueCandidate two_engine
   \<and> (\<exists>e'. refreshLine two_engine = Inr e'
          \<and> line e' = [99, 100, 32, 47, 117, 115, 114, 47, 108, 111, 99]
          \<and> cursor e' = 11
          \<and> compLine e' = Some [99, 100, 32, 47, 117, 115, 114, 47, 108, 111, 99, 97, 108, 47])"
proof -
  have l: "\<not> noCompletions local_engine" "currentGroup local_engine = Some local_group"
    "hasUniqueCandidate local_engine"
    by (simp_all add: noCompletions_def hasUniqueCandidate_def local_engine_def
          local_group_def)
  have t: "\<not> noCompletions two_engine" "currentGroup two_engine = Some two_group"
    "\<not> hasUniqueCandidate two_engine"
    by (simp_all add: noCompletions_def hasUniqueCandidate_def two_engine_def
          local_engine_def two_group_def)
  have lf: "prefix local_engine = ''loc''" "suffix local_engine = []"
    "cursor local_engine = 11"
    "line local_engine = [99, 100, 32, 47, 117, 115, 114, 47, 108, 111, 99]"
    "compLine local_engine = None"
    by (simp_all add: local_engine_def)
  have tf: "prefix two_engine = ''loc''" "suffix two_engine = []" "cursor two_engine = 11"
    "line two_engine = [99, 100, 32, 47, 117, 115, 114, 47, 108, 111, 99]"
    "Value (group_selected two_group) = ''local/''"
    by (simp_all add: two_engine_def local_engine_def two_group_def local_candidate_def)
  have lp: "prepareSuffix (local_engine\<lparr>selected := group_selected local_group\<rparr>)
        = Inr (''local/'', local_engine\<lparr>selected := group_selected local_group,
                 sm := \<lparr>sm_string = ''/'', sm_pos = 13\<rparr>\<rparr>)"
    by (simp add: prepareSuffix_def local_engine_def local_group_def local_candidate_def
          Let_def)
  have ll: "length (prefix local_engine) \<le> length ''local/''" by (simp add: lf)
  have la: "acceptCandidate local_engine =
        Inr (local_engine\<lparr>selected := group_selected local_group,
               sm := \<lparr>sm_string = ''/'', sm_pos = 13\<rparr>,
               line := [99, 100, 32, 47, 117, 115, 114, 47, 108, 111, 99, 97, 108, 47],
               cursor := 14, inserted := [], prefix := '''', suffix := ''''\<rparr>)"
    using acceptCandidate_eq [OF l(2) lp ll]
    by (simp add: lf first_size_def Let_def Line_Insert_def Line_Cut_def clamp_pos_def)
  have U: "\<forall>e1. acceptCandidate local_engine = Inr e1 \<longrightarrow>
            refreshLine local_engine
              = Inr (e1\<lparr>groups := [], currentGroup := None, autoForce := False\<rparr>)"
    using refreshLine_accepts_unique_candidate [OF l(1,2)] l(3) by blast
  have "refreshLine local_engine =
        Inr (local_engine\<lparr>selected := group_selected local_group,
               sm := \<lparr>sm_string = ''/'', sm_pos = 13\<rparr>,
               line := [99, 100, 32, 47, 117, 115, 114, 47, 108, 111, 99, 97, 108, 47],
               cursor := 14, inserted := [], prefix := '''', suffix := '''',
               groups := [], currentGroup := None, autoForce := False\<rparr>)"
    using U [rule_format, OF la] .
  then have A: "\<exists>e'. refreshLine local_engine = Inr e'
          \<and> line e' = [99, 100, 32, 47, 117, 115, 114, 47, 108, 111, 99, 97, 108, 47]
          \<and> cursor e' = 14 \<and> groups e' = [] \<and> compLine e' = None"
    by (simp add: lf)
  have v: "\<forall>r\<in>set (line two_engine). valid_rune r" by (simp add: tf valid_rune_def)
  have w: "0 \<le> cursor two_engine" "cursor two_engine \<le> Line_Len (line two_engine)"
    "length (prefix two_engine) \<le> length (Value (group_selected two_group))"
    by (simp_all add: tf Line_Len_def)
  have c: "Value (group_selected two_group) \<noteq> []" "caller two_engine \<noteq> []"
    by (simp_all add: tf two_engine_def local_engine_def)
  from insertCandidate_returns [OF t(2) w(3)] c
  obtain e1 where i: "insertCandidate two_engine = Inr e1" by blast
  from insertCandidate_preview [OF v w(1,2) t(2) w(3) i]
  have cl: "compLine e1 = Some [99, 100, 32, 47, 117, 115, 114, 47, 108, 111, 99, 97, 108, 47]"
    by (auto simp: tf first_size_def Let_def Line_Insert_def Line_Cut_def clamp_pos_def)
  have V: "refreshLine two_engine = insertCandidate two_engine"
    "\<forall>e'. refreshLine two_engine = Inr e' \<longrightarrow>
        line e' = line two_engine \<and> cursor e' = cursor two_engine
        \<and> groups e' = groups two_engine"
    using refreshLine_accepts_unique_candidate [OF t(1,2)] t(3) by blast+
  have r1: "refreshLine two_engine = Inr e1" using V(1) i by simp
  have "refreshLine two_engine = Inr e1 \<and> line e1 = line two_engine
        \<and> cursor e1 = cursor two_engine"
    using r1 V(2) [rule_format, OF r1] by simp
  then have B: "\<exists>e'. refreshLine two_engine = Inr e'
          \<and> line e' = [99, 100, 32, 47, 117, 115, 114, 47, 108, 111, 99]
          \<and> cursor e' = 11
          \<and> compLine e' = Some [99, 100, 32, 47, 117, 115, 114, 47, 108, 111, 99, 97, 108, 47]"
    using cl tf by simp
  show ?thesis using l t A B by blast
qed

end
